theory Spec2Isabelle
  imports Complex_Main "HOL-Library.Sublist" "HOL-Library.Multiset"
begin
section \<open>Strings: the fragment of Python's \<open>str\<close> the patcher uses\<close>

text \<open>
  Lines are \<open>string\<close>s. \<open>is_space\<close> is Python's \<open>str.isspace\<close> on the code points
  below 256, which is what \<open>strip\<close>, \<open>lstrip\<close> and \<open>split\<close> remove.
\<close>

definition is_space :: "char \<Rightarrow> bool" where
  "is_space c = (c \<in> set [CHR 0x09, CHR 0x0A, CHR 0x0B, CHR 0x0C, CHR 0x0D,
                          CHR 0x1C, CHR 0x1D, CHR 0x1E, CHR 0x1F, CHR 0x20,
                          CHR 0x85, CHR 0xA0])"

definition lstrip :: "string \<Rightarrow> string" where
  "lstrip s = dropWhile is_space s"

definition rstrip :: "string \<Rightarrow> string" where
  "rstrip s = rev (dropWhile is_space (rev s))"

definition strip :: "string \<Rightarrow> string" where
  "strip s = rstrip (lstrip s)"

definition startswith :: "string \<Rightarrow> string \<Rightarrow> bool" where
  "startswith s p = (take (length p) s = p)"

definition digit_char :: "nat \<Rightarrow> char" where
  "digit_char d = char_of (48 + d)"

fun str_nat :: "nat \<Rightarrow> string" where
  "str_nat n = (if n < 10 then [digit_char n] else str_nat (n div 10) @ [digit_char (n mod 10)])"

declare str_nat.simps [simp del]

text \<open>\<open>str_int b\<close> is what an f-string prints for the Python int \<open>b\<close>.\<close>

definition str_int :: "int \<Rightarrow> string" where
  "str_int i = (if i < 0 then CHR ''-'' # str_nat (nat (- i)) else str_nat (nat i))"

section \<open>Emission order (\<open>_pm_i_print_order\<close>, \<open>_pm_j_print_order\<close>)\<close>

text \<open>
  \<open>order_tail n order\<close> is the last loop of both functions:
  \<^verbatim>\<open>for i in range(2, 10): if i < n and i not in order: order.append(i)\<close>.
\<close>

definition order_tail :: "int \<Rightarrow> int list \<Rightarrow> int list" where
  "order_tail n order =
     foldl (\<lambda>ord i. if i < n \<and> i \<notin> set ord then ord @ [i] else ord) order [2, 3, 4, 5, 6, 7, 8, 9]"

definition pm_i_print_order :: "int \<Rightarrow> int list" where
  "pm_i_print_order total_stations =
     (let order = [];
          order = (if total_stations > 0 then order @ [0] else order);
          order = (if total_stations > 1 then order @ [1] else order);
          order = order @ [10 .. total_stations - 1]
      in order_tail total_stations order)"

definition pm_j_print_order :: "int \<Rightarrow> int list" where
  "pm_j_print_order points_per_ring =
     (let order = [];
          order = (if points_per_ring > 0 then order @ [0] else order);
          order = (if points_per_ring > 1 then order @ [1] else order);
          order = order @ [10 .. points_per_ring - 1]
      in order_tail points_per_ring order)"

text \<open>
  The cells in the order \<open>build_body_block_lines\<close> serialises them:
  \<^verbatim>\<open>for i in i_order: for j in j_order: ...\<close>.
\<close>

definition cell_order :: "int \<Rightarrow> int \<Rightarrow> (int \<times> int) list" where
  "cell_order total_stations points_per_ring =
     concat (map (\<lambda>i. map (\<lambda>j. (i, j)) (pm_j_print_order points_per_ring))
                 (pm_i_print_order total_stations))"

section \<open>Config patcher\<close>

subsection \<open>\<open>replace_body_block\<close> (prefix-strip-and-reinsert)\<close>

definition body_prefix :: "int \<Rightarrow> string" where
  "body_prefix body_index = ''P _body/'' @ str_int body_index @ ''/''"

definition is_body_line :: "int \<Rightarrow> string \<Rightarrow> bool" where
  "is_body_line body_index l = startswith (lstrip l) (body_prefix body_index)"

text \<open>
  \<^verbatim>\<open>next((i for i, l in enumerate(xs) if p(l)), default)\<close>: the index of the first
  element that satisfies \<open>p\<close>, or the default.
\<close>

definition first_index :: "('a \<Rightarrow> bool) \<Rightarrow> 'a list \<Rightarrow> nat \<Rightarrow> nat" where
  "first_index p xs dflt =
     (if list_ex p xs then length (takeWhile (\<lambda>x. \<not> p x) xs) else dflt)"

definition replace_body_block :: "string list \<Rightarrow> int \<Rightarrow> string list \<Rightarrow> string list" where
  "replace_body_block acf_lines body_index new_block =
     (let kept = filter (\<lambda>l. \<not> is_body_line body_index l) acf_lines;
          first_pos = first_index (is_body_line body_index) acf_lines (length kept);
          first_pos = min first_pos (length kept)
      in take first_pos kept @ new_block @ drop first_pos kept)"

subsection \<open>\<open>rewrite_acf_bodies\<close> (marker-based span replacement)\<close>

datatype error = RuntimeError | ValueError | KeyError | IndexError | AssertionError

text \<open>
  The marker scan: \<open>prop_begin\<close> is overwritten by every \<open>PROPERTIES_BEGIN\<close> seen before
  the first \<open>PROPERTIES_END\<close>, where the loop breaks.
\<close>

fun find_markers :: "string list \<Rightarrow> nat \<Rightarrow> nat option \<Rightarrow> nat option \<times> nat option" where
  "find_markers [] idx prop_begin = (prop_begin, None)"
| "find_markers (line # rest) idx prop_begin =
     (if strip line = ''PROPERTIES_BEGIN'' then find_markers rest (Suc idx) (Some idx)
      else if strip line = ''PROPERTIES_END'' then (prop_begin, Some idx)
      else find_markers rest (Suc idx) prop_begin)"

definition is_any_body_line :: "string \<Rightarrow> bool" where
  "is_any_body_line l = startswith (lstrip l) ''P _body/''"

text \<open>
  The span scan over \<open>range(prop_begin + 1, prop_end)\<close>: the first and the last index of
  a \<open>P _body/\<close> line.
\<close>

definition body_span_step :: "string list \<Rightarrow> nat option \<times> nat option \<Rightarrow> nat \<Rightarrow> nat option \<times> nat option" where
  "body_span_step lines st idx =
     (if is_any_body_line (lines ! idx)
      then ((case fst st of None \<Rightarrow> Some idx | Some b \<Rightarrow> Some b), Some idx)
      else st)"

definition find_body_span :: "string list \<Rightarrow> nat \<Rightarrow> nat \<Rightarrow> nat option \<times> nat option" where
  "find_body_span lines prop_begin prop_end =
     foldl (body_span_step lines) (None, None) [Suc prop_begin ..< prop_end]"

text \<open>
  The function on the lines of the input file; the result is the list of lines written
  to the output file, or the error raised before anything is written.
\<close>

definition rewrite_acf_bodies :: "string list \<Rightarrow> string list \<Rightarrow> error + string list" where
  "rewrite_acf_bodies lines new_body_lines =
     (case find_markers lines 0 None of
        (Some prop_begin, Some prop_end) \<Rightarrow>
          if prop_end \<le> prop_begin then Inl RuntimeError
          else
            (case find_body_span lines prop_begin prop_end of
               (Some body_start, Some body_end) \<Rightarrow>
                 Inr (take body_start lines @ new_body_lines @ drop (Suc body_end) lines)
             | _ \<Rightarrow>
                 Inr (take (Suc prop_begin) lines @ new_body_lines @ drop (Suc prop_begin) lines))
      | _ \<Rightarrow> Inl RuntimeError)"

section \<open>Dimension discovery (\<open>read_target_dims_from_acf\<close>)\<close>

text \<open>\<open>split_ws s\<close> is \<open>s.split()\<close>: the maximal runs of non-space characters.\<close>

fun split_acc :: "string \<Rightarrow> string \<Rightarrow> string list" where
  "split_acc cur [] = (if cur = [] then [] else [cur])"
| "split_acc cur (c # cs) =
     (if is_space c then (if cur = [] then split_acc [] cs else cur # split_acc [] cs)
      else split_acc (cur @ [c]) cs)"

definition split_ws :: "string \<Rightarrow> string list" where
  "split_ws s = split_acc [] s"

text \<open>
  \<open>py_int\<close> is \<open>int(tok)\<close> on a token without spaces: an optional sign, then decimal
  digits, where single underscores may separate digits. \<open>None\<close> is the \<open>ValueError\<close>.
\<close>

definition is_digit :: "char \<Rightarrow> bool" where
  "is_digit c = (48 \<le> (of_char c :: nat) \<and> (of_char c :: nat) \<le> 57)"

definition digit_val :: "char \<Rightarrow> nat" where
  "digit_val c = of_char c - 48"

fun digits_rest :: "nat \<Rightarrow> string \<Rightarrow> nat option" where
  "digits_rest acc [] = Some acc"
| "digits_rest acc [c] = (if is_digit c then Some (10 * acc + digit_val c) else None)"
| "digits_rest acc (c # d # cs) =
     (if is_digit c then digits_rest (10 * acc + digit_val c) (d # cs)
      else if c = CHR ''_'' \<and> is_digit d then digits_rest (10 * acc + digit_val d) cs
      else None)"

definition py_unsigned :: "string \<Rightarrow> nat option" where
  "py_unsigned s = (case s of [] \<Rightarrow> None
                    | d # ds \<Rightarrow> if is_digit d then digits_rest (digit_val d) ds else None)"

definition py_int :: "string \<Rightarrow> int option" where
  "py_int tok =
     (case tok of
        [] \<Rightarrow> None
      | c # cs \<Rightarrow>
          if c = CHR ''-'' then map_option (\<lambda>n. - int n) (py_unsigned cs)
          else if c = CHR ''+'' then map_option int (py_unsigned cs)
          else map_option int (py_unsigned tok))"

text \<open>
  \<^verbatim>\<open>try: x = int(t.split()[-1])  except: pass\<close>: the new value of \<open>x\<close>, the old one when
  the last token does not parse (or there is no token).
\<close>

definition try_last_int :: "string \<Rightarrow> int option \<Rightarrow> int option" where
  "try_last_int t old =
     (case split_ws t of
        [] \<Rightarrow> old
      | tok # toks \<Rightarrow> (case py_int (last (tok # toks)) of None \<Rightarrow> old | Some v \<Rightarrow> Some v))"

definition dim_prefix :: "int \<Rightarrow> string \<Rightarrow> string" where
  "dim_prefix body_index name = ''P _body/'' @ str_int body_index @ ''/_locked/'' @ name"

fun dims_loop :: "string \<Rightarrow> string \<Rightarrow> string list \<Rightarrow> int option \<Rightarrow> int option
                  \<Rightarrow> int option \<times> int option" where
  "dims_loop p_i p_j [] i_count j_count = (i_count, j_count)"
| "dims_loop p_i p_j (s # rest) i_count j_count =
     (let t = strip s;
          i_count' = (if startswith t p_i then try_last_int t i_count else i_count);
          j_count' = (if \<not> startswith t p_i \<and> startswith t p_j then try_last_int t j_count
                      else j_count)
      in if i_count' \<noteq> None \<and> j_count' \<noteq> None then (i_count', j_count')
         else dims_loop p_i p_j rest i_count' j_count')"

definition read_target_dims_from_acf :: "string list \<Rightarrow> int \<Rightarrow> int \<times> int" where
  "read_target_dims_from_acf acf_lines body_index =
     (let (i_count, j_count) =
            dims_loop (dim_prefix body_index ''i_count'') (dim_prefix body_index ''j_count'')
                      acf_lines None None
      in ((case i_count of None \<Rightarrow> 20 | Some v \<Rightarrow> v),
          (case j_count of None \<Rightarrow> 18 | Some v \<Rightarrow> v)))"

text \<open>
  The value a line carries for a path prefix: the line, trimmed, starts with the prefix
  and its last token parses as an integer.
\<close>

definition line_value :: "string \<Rightarrow> string \<Rightarrow> int option" where
  "line_value pfx s = (let t = strip s in if startswith t pfx then try_last_int t None else None)"

definition carried_values :: "string \<Rightarrow> string list \<Rightarrow> int list" where
  "carried_values pfx acf_lines = List.map_filter (line_value pfx) acf_lines"

section \<open>Stationing and geometry emission (\<open>extractBodies.py\<close>)\<close>

text \<open>
  Coordinates are Python floats; they are modelled as reals, so rounding is left out.
  A vertex is \<open>(x, y, z)\<close>.
\<close>

type_synonym vertex = "real \<times> real \<times> real"

definition vx :: "vertex \<Rightarrow> real" where "vx v = fst v"
definition vy :: "vertex \<Rightarrow> real" where "vy v = fst (snd v)"
definition vz :: "vertex \<Rightarrow> real" where "vz v = snd (snd v)"

definition FT_PER_M :: real where
  "FT_PER_M = 328084 / 100000"

text \<open>\<open>py_slice xs a b\<close> is \<open>xs[a:b]\<close>: negative bounds count from the end.\<close>

definition slice_bound :: "nat \<Rightarrow> int \<Rightarrow> nat" where
  "slice_bound n k = (if k < 0 then nat (max 0 (k + int n)) else min (nat k) n)"

definition py_slice :: "'a list \<Rightarrow> int \<Rightarrow> int \<Rightarrow> 'a list" where
  "py_slice xs a b = drop (slice_bound (length xs) a) (take (slice_bound (length xs) b) xs)"

subsection \<open>\<open>build_stations_from_geometry\<close>\<close>

text \<open>
  The chunking loop \<^verbatim>\<open>while off < n_mid: stations.append(middle[off: off + vpl]); off += vpl\<close>.
  It does not end when \<open>verts_per_loop \<le> 0\<close> and \<open>middle\<close> is not empty: the result is
  \<open>None\<close> then.
\<close>

partial_function (option) chunk_loop ::
  "vertex list \<Rightarrow> int \<Rightarrow> int \<Rightarrow> vertex list list \<Rightarrow> vertex list list option" where
  "chunk_loop middle verts_per_loop off stations =
     (if off < int (length middle)
      then chunk_loop middle verts_per_loop (off + verts_per_loop)
             (stations @ [py_slice middle off (off + verts_per_loop)])
      else Some stations)"

declare chunk_loop.simps [code]

definition build_stations_from_geometry ::
  "vertex list \<Rightarrow> int \<Rightarrow> bool \<Rightarrow> vertex list list option" where
  "build_stations_from_geometry verts verts_per_loop with_tip_tail =
     (if verts = [] then Some []
      else
        let v_sorted = sort_key vz verts in
        if int (length v_sorted) < 1 + verts_per_loop + 1 then Some [v_sorted]
        else
          let tip = [hd v_sorted];
              tail = [last v_sorted];
              middle = py_slice v_sorted 1 (- 1);
              stations = (if with_tip_tail then [tip] else [])
          in case chunk_loop middle verts_per_loop 0 stations of
               None \<Rightarrow> None
             | Some stations \<Rightarrow> Some (if with_tip_tail then stations @ [tail] else stations))"

subsection \<open>\<open>pad_or_truncate_stations\<close>\<close>

function pad_loop :: "vertex list list \<Rightarrow> int \<Rightarrow> vertex list list" where
  "pad_loop out target_i =
     (if int (length out) < target_i then pad_loop (out @ [ [] ]) target_i else out)"
  by pat_completeness auto
termination
  by (relation "measure (\<lambda>(out, target_i). nat (target_i - int (length out)))") auto

declare pad_loop.simps [simp del]

definition pad_or_truncate_stations :: "vertex list list \<Rightarrow> int \<Rightarrow> vertex list list" where
  "pad_or_truncate_stations stations target_i =
     (if int (length stations) = target_i then stations
      else if int (length stations) > target_i then py_slice stations 0 target_i
      else pad_loop stations target_i)"

subsection \<open>\<open>generate_geo_xyz_literal_from_stations\<close>\<close>

text \<open>
  A geometry line \<^verbatim>\<open>P _body/{b}/_geo_xyz/{i},{j},{k} {value:.9f}\<close> is kept as its fields;
  \<open>render_geo\<close> gives the text, with the float format \<^verbatim>\<open>.9f\<close> as a parameter.
\<close>

record geo_line =
  gl_body :: int
  gl_i :: nat
  gl_j :: nat
  gl_k :: nat
  gl_val :: real

definition geo :: "int \<Rightarrow> nat \<Rightarrow> nat \<Rightarrow> nat \<Rightarrow> real \<Rightarrow> geo_line" where
  "geo b i j k v = \<lparr>gl_body = b, gl_i = i, gl_j = j, gl_k = k, gl_val = v\<rparr>"

definition render_geo :: "(real \<Rightarrow> string) \<Rightarrow> geo_line \<Rightarrow> string" where
  "render_geo fmt9 l =
     ''P _body/'' @ str_int (gl_body l) @ ''/_geo_xyz/'' @ str_nat (gl_i l) @ '','' @
     str_nat (gl_j l) @ '','' @ str_nat (gl_k l) @ '' '' @ fmt9 (gl_val l)"

text \<open>The index of the last non-empty station, \<open>-1\<close> when there is none.\<close>

definition last_non_empty_idx :: "vertex list list \<Rightarrow> int" where
  "last_non_empty_idx stations =
     (case filter (\<lambda>idx. stations ! idx \<noteq> []) (rev [0 ..< length stations]) of
        [] \<Rightarrow> - 1
      | idx # _ \<Rightarrow> int idx)"

definition mean :: "real list \<Rightarrow> real" where
  "mean xs = (if xs \<noteq> [] then sum_list xs / real (length xs) else 0)"

text \<open>
  The cell dictionary of a mid station: vertex number \<open>idx\<close> of \<open>pos_sorted\<close> is written
  to slot \<open>js_right[idx % len]\<close> and, mirrored in \<open>x\<close>, to slot \<open>js_left[idx % len]\<close>;
  a later write to the same slot wins.
\<close>

definition cell_step ::
  "nat list \<Rightarrow> nat list \<Rightarrow> (nat \<times> nat \<rightharpoonup> real) \<Rightarrow> nat \<times> vertex \<Rightarrow> (nat \<times> nat \<rightharpoonup> real)" where
  "cell_step js_right js_left cell p =
     (let idx = fst p;
          x_ft = vx (snd p) * FT_PER_M; y_ft = vy (snd p) * FT_PER_M; z_ft = vz (snd p) * FT_PER_M;
          jr = js_right ! (idx mod max 1 (length js_right));
          jl = js_left ! (idx mod max 1 (length js_left))
      in cell((jr, 0) \<mapsto> x_ft, (jr, 1) \<mapsto> y_ft, (jr, 2) \<mapsto> z_ft,
              (jl, 0) \<mapsto> - x_ft, (jl, 1) \<mapsto> y_ft, (jl, 2) \<mapsto> z_ft))"

definition cell_get :: "(nat \<times> nat \<rightharpoonup> real) \<Rightarrow> nat \<times> nat \<Rightarrow> real" where
  "cell_get cell key = (case cell key of None \<Rightarrow> 0 | Some v \<Rightarrow> v)"

definition emit_station ::
  "int \<Rightarrow> nat \<Rightarrow> bool \<Rightarrow> int \<Rightarrow> nat \<Rightarrow> vertex list \<Rightarrow> geo_line list" where
  "emit_station body_index J with_tip_tail last_idx i verts_here =
     (if verts_here = [] then
        concat (map (\<lambda>j. [geo body_index i j 0 0, geo body_index i j 1 0, geo body_index i j 2 0])
                    [0 ..< J])
      else
        let is_tip = with_tip_tail \<and> i = 0;
            is_tail = with_tip_tail \<and> int i = last_idx
        in
        if is_tip \<or> is_tail then
          let y_ft = mean (map vy verts_here) * FT_PER_M;
              z_ft = mean (map vz verts_here) * FT_PER_M
          in concat (map (\<lambda>j. [geo body_index i j 0 0, geo body_index i j 1 y_ft,
                                 geo body_index i j 2 z_ft]) [0 ..< J])
        else
          let half = J div 2;
              js_right = [0 ..< half];
              js_left = rev [half ..< J];
              pos0 = filter (\<lambda>v. vx v \<ge> 0) verts_here;
              pos = (if pos0 \<noteq> [] then pos0 else verts_here);
              pos_sorted = sort_key (\<lambda>v. - vy v) pos;
              cell = foldl (cell_step js_right js_left) Map.empty (enumerate 0 pos_sorted)
          in concat (map (\<lambda>j. [geo body_index i j 0 (cell_get cell (j, 0)),
                                 geo body_index i j 1 (cell_get cell (j, 1)),
                                 geo body_index i j 2 (cell_get cell (j, 2))]) [0 ..< J]))"

definition generate_geo_xyz_literal_from_stations ::
  "vertex list list \<Rightarrow> int \<Rightarrow> int \<Rightarrow> int \<Rightarrow> bool \<Rightarrow> geo_line list" where
  "generate_geo_xyz_literal_from_stations stations_mesh body_index target_i target_j with_tip_tail =
     (let stations = pad_or_truncate_stations stations_mesh target_i;
          J = nat (max 2 target_j);
          last_idx = last_non_empty_idx stations
      in concat (map (\<lambda>p. emit_station body_index J with_tip_tail last_idx (fst p) (snd p))
                     (enumerate 0 stations)))"

subsection \<open>Bounding radius\<close>

text \<open>\<^verbatim>\<open>max(xs, default=d)\<close>.\<close>

definition max_default :: "real list \<Rightarrow> real \<Rightarrow> real" where
  "max_default xs d = (case xs of [] \<Rightarrow> d | x # rest \<Rightarrow> fold max rest x)"

definition compute_grid_radius_ft :: "vertex list \<Rightarrow> real" where
  "compute_grid_radius_ft verts =
     (if verts = [] then 5
      else
        let max_abs_x = max_default (map (\<lambda>v. \<bar>vx v\<bar>) verts) 0;
            max_abs_y = max_default (map (\<lambda>v. \<bar>vy v\<bar>) verts) 0
        in max max_abs_x max_abs_y * FT_PER_M + 3)"

text \<open>\<open>compute_part_rad_from_rings\<close> of the template pipeline; \<open>buffer_ft\<close> defaults to 1.\<close>

definition rad_step :: "real \<times> real \<Rightarrow> vertex \<Rightarrow> real \<times> real" where
  "rad_step m v =
     (let ax = \<bar>vx v\<bar>; ay = \<bar>vy v\<bar>;
          max_x = (if ax > fst m then ax else fst m);
          max_y = (if ay > snd m then ay else snd m)
      in (max_x, max_y))"

definition compute_part_rad_from_rings :: "vertex list list \<Rightarrow> real \<Rightarrow> real" where
  "compute_part_rad_from_rings rings buffer_ft =
     (let m = foldl (\<lambda>m ring. foldl rad_step m ring) (0, 0) rings;
          base_rad = max (fst m) (snd m)
      in base_rad + buffer_ft)"

text \<open>
  The padded grid of \<open>build_body_block_lines\<close> and \<open>build_body_block_from_template\<close>:
  the first \<open>total_stations\<close> rings, each filled with zero points up to
  \<open>points_per_ring\<close>, then zero rings up to \<open>total_stations\<close>.
\<close>

definition pad_ring :: "int \<Rightarrow> vertex list \<Rightarrow> vertex list" where
  "pad_ring points_per_ring ring =
     (if int (length ring) < points_per_ring
      then ring @ replicate (nat (points_per_ring - int (length ring))) (0, 0, 0)
      else ring)"

definition padded_rings :: "vertex list list \<Rightarrow> int \<Rightarrow> int \<Rightarrow> vertex list list" where
  "padded_rings rings total_stations points_per_ring =
     (let real_rings = map (pad_ring points_per_ring)
                           (take (nat (min (int (length rings)) total_stations)) rings)
      in real_rings @
         replicate (nat (total_stations - int (length real_rings)))
                   (replicate (nat points_per_ring) (0, 0, 0)))"

subsection \<open>The shape of the emitted grid\<close>

text \<open>
  The \<open>(station, slot, axis)\<close> triple a geometry line addresses, and the triples of one
  station with \<open>J\<close> slots in the order the emitter writes them.
\<close>

definition geo_index :: "geo_line \<Rightarrow> nat \<times> nat \<times> nat" where
  "geo_index l = (gl_i l, gl_j l, gl_k l)"

definition station_cells :: "nat \<Rightarrow> nat \<Rightarrow> (nat \<times> nat \<times> nat) list" where
  "station_cells J i = concat (map (\<lambda>j. [(i, j, 0), (i, j, 1), (i, j, 2)]) [0 ..< J])"

text \<open>An invariant of the cell dictionary: the values of the axes 0 and 1 are bounded.\<close>

definition cell_bounded :: "real \<Rightarrow> (nat \<times> nat \<rightharpoonup> real) \<Rightarrow> bool" where
  "cell_bounded B cell = (\<forall>j k val. cell (j, k) = Some val \<longrightarrow> k \<le> 1 \<longrightarrow> \<bar>val\<bar> \<le> B)"


section \<open>Ring canonicalizer (\<open>build_pm_rings_for_mesh\<close>, template pipeline)\<close>

text \<open>
  \<open>atan2 y x\<close> is \<^verbatim>\<open>math.atan2(y, x)\<close> on the reals: the angle of the point \<open>(x, y)\<close> in
  \<open>(-\<pi>, \<pi>]\<close>, and 0 at the origin. (The float function tells \<open>-0.0\<close> from \<open>0.0\<close>;
  the reals do not.)
\<close>

definition atan2 :: "real \<Rightarrow> real \<Rightarrow> real" where
  "atan2 y x =
     (if x > 0 then arctan (y / x)
      else if x < 0 \<and> y \<ge> 0 then arctan (y / x) + pi
      else if x < 0 \<and> y < 0 then arctan (y / x) - pi
      else if y > 0 then pi / 2
      else if y < 0 then - (pi / 2)
      else 0)"

definition eps :: real where
  "eps = 1 / 100000"

definition eps_split :: real where
  "eps_split = 1 / 100000"

definition eps_center :: real where
  "eps_center = 1 / 10000"

definition to_ft :: "vertex \<Rightarrow> vertex" where
  "to_ft v = (vx v * FT_PER_M, vy v * FT_PER_M, vz v * FT_PER_M)"

text \<open>
  The sort key of a side vertex:
  \<^verbatim>\<open>ang = math.atan2(y_ft, x_ft if abs(x_ft) > 1e-12 else 0.0)\<close>.
\<close>

definition angle_key :: "vertex \<Rightarrow> real" where
  "angle_key v = atan2 (vy v) (if \<bar>vx v\<bar> > 1 / 10 ^ 12 then vx v else 0)"

text \<open>
  \<^verbatim>\<open>side_with_angle.sort(key=lambda t: t[3], reverse=True)\<close>: a stable sort, descending
  by angle; vertices of equal angle keep their order.
\<close>

definition sort_by_angle :: "vertex list \<Rightarrow> vertex list" where
  "sort_by_angle vs = sort_key (\<lambda>v. - angle_key v) vs"

text \<open>
  \<^verbatim>\<open>max(xs, key=f)\<close> and \<^verbatim>\<open>min(xs, key=f)\<close> on a non-empty list: the first element
  with the largest (smallest) key.
\<close>

definition first_max_by :: "('a \<Rightarrow> real) \<Rightarrow> 'a list \<Rightarrow> 'a" where
  "first_max_by f xs = fold (\<lambda>x best. if f x > f best then x else best) (tl xs) (hd xs)"

definition first_min_by :: "('a \<Rightarrow> real) \<Rightarrow> 'a list \<Rightarrow> 'a" where
  "first_min_by f xs = fold (\<lambda>x best. if f x < f best then x else best) (tl xs) (hd xs)"

definition center_indices :: "vertex list \<Rightarrow> nat list" where
  "center_indices half_ft = filter (\<lambda>i. \<bar>vx (half_ft ! i)\<bar> < eps_center) [0 ..< length half_ft]"

text \<open>The canonical order of a half ring given in feet (the list \<open>ordered\<close>).\<close>

definition half_order :: "vertex list \<Rightarrow> vertex list" where
  "half_order half_ft =
     (if length (center_indices half_ft) \<ge> 2 then
        let top_i = first_max_by (\<lambda>i. vy (half_ft ! i)) (center_indices half_ft);
            bot_i = first_min_by (\<lambda>i. vy (half_ft ! i)) (center_indices half_ft);
            top = half_ft ! top_i;
            bottom = half_ft ! bot_i;
            side = map (\<lambda>i. half_ft ! i)
                       (filter (\<lambda>i. i \<noteq> top_i \<and> i \<noteq> bot_i) [0 ..< length half_ft])
        in [top] @ sort_by_angle side @ [bottom]
      else sort_by_angle half_ft)"

definition snap :: "real \<Rightarrow> real" where
  "snap a = (if \<bar>a\<bar> < eps then 0 else a)"

text \<open>The nine slots of the half: a short list is filled with its last point.\<close>

definition left_ring :: "vertex list \<Rightarrow> vertex list" where
  "left_ring ordered =
     map (\<lambda>j. let v = (if j < length ordered then ordered ! j else last ordered)
               in (snap (vx v), snap (vy v), snap (vz v)))
         [0 ..< 9]"

text \<open>The 18 slots: slot \<open>j\<close> is the half's slot \<open>j\<close>, slot \<open>9 + j\<close> its mirror image.\<close>

definition mirror_ring :: "vertex list \<Rightarrow> vertex list" where
  "mirror_ring left = left @ map (\<lambda>v. (snap (- vx v), vy v, vz v)) left"

text \<open>
  A mid station, from its vertices in metres: the ring and the size of the half, or
  the \<open>ValueError\<close> for a half outside 5..9.
\<close>

definition mid_ring :: "vertex list \<Rightarrow> error + (vertex list \<times> nat)" where
  "mid_ring station_verts_m =
     (let half_raw = filter (\<lambda>v. vx v \<ge> - eps_split) station_verts_m;
          n_half = length half_raw
      in if \<not> (5 \<le> n_half \<and> n_half \<le> 9) then Inl ValueError
         else Inr (mirror_ring (left_ring (half_order (map to_ft half_raw))), n_half))"

text \<open>A tip or tail station: one point, broadcast to the 18 slots with \<open>x = 0\<close>.\<close>

definition tip_ring :: "vertex \<Rightarrow> vertex list" where
  "tip_ring v = replicate 18 (0, snap (vy v * FT_PER_M), snap (vz v * FT_PER_M))"


section \<open>Topology builder (template pipeline)\<close>

subsection \<open>\<open>build_vertex_adjacency\<close>\<close>

text \<open>
  A neighbour set is kept as the list of its elements in insertion order.
  \<open>list(nb)\<close> iterates a Python set in an order the language leaves open; the model
  takes that order as the parameter \<open>set_list\<close>. Vertex indices are naturals: the
  loader remaps every face to valid local indices.
\<close>

definition set_add :: "nat \<Rightarrow> nat list \<Rightarrow> nat list" where
  "set_add x s = (if x \<in> set s then s else s @ [x])"

fun face_loop :: "nat list \<Rightarrow> nat list \<Rightarrow> nat list list \<Rightarrow> error + nat list list" where
  "face_loop face [] nbs = Inr nbs"
| "face_loop face (i # rest) nbs =
     (let v0 = face ! i;
          v1 = face ! ((i + 1) mod length face)
      in if v0 = v1 then face_loop face rest nbs
         else if v0 \<ge> length nbs \<or> v1 \<ge> length nbs then Inl IndexError
         else
           let nbs1 = nbs[v0 := set_add v1 (nbs ! v0)];
               nbs2 = nbs1[v1 := set_add v0 (nbs1 ! v1)]
           in face_loop face rest nbs2)"

fun faces_loop :: "nat list list \<Rightarrow> nat list list \<Rightarrow> error + nat list list" where
  "faces_loop [] nbs = Inr nbs"
| "faces_loop (face # faces) nbs =
     (if length face < 2 then faces_loop faces nbs
      else case face_loop face [0 ..< length face] nbs of
             Inl e \<Rightarrow> Inl e
           | Inr nbs' \<Rightarrow> faces_loop faces nbs')"

definition build_vertex_adjacency ::
  "(nat list \<Rightarrow> nat list) \<Rightarrow> nat \<Rightarrow> nat list list \<Rightarrow> error + nat list list" where
  "build_vertex_adjacency set_list num_verts faces =
     (case faces_loop faces (replicate num_verts []) of
        Inl e \<Rightarrow> Inl e
      | Inr nbs \<Rightarrow> Inr (map set_list nbs))"

subsection \<open>\<open>compute_topological_layers\<close>\<close>

text \<open>
  \<open>dmap\<close> is the dictionary \<^verbatim>\<open>dist\<close> in insertion order: a list of (vertex, distance)
  pairs with distinct vertices. \<open>visit\<close> is the body of the loop over the neighbours of the vertex
  taken from the queue.
\<close>

definition visit :: "nat \<Rightarrow> (nat \<times> nat) list \<times> nat list \<Rightarrow> nat \<Rightarrow> (nat \<times> nat) list \<times> nat list" where
  "visit dv st nb =
     (if map_of (fst st) nb = None then (fst st @ [(nb, dv + 1)], snd st @ [nb]) else st)"

definition dist_keys :: "(nat \<times> nat) list \<Rightarrow> nat set" where
  "dist_keys dmap = fst ` set dmap"

text \<open>
  The queue loop. A vertex taken from the queue is always a key of \<open>dmap\<close> and, for
  neighbour lists built from valid faces, a valid index; the two error branches make
  the function total. The loop ends because every pass either adds a vertex to
  \<open>dmap\<close> or shortens the queue.
\<close>

function bfs_loop :: "nat list list \<Rightarrow> (nat \<times> nat) list \<Rightarrow> nat list \<Rightarrow> error + (nat \<times> nat) list" where
  "bfs_loop neighbors dmap [] = Inr dmap"
| "bfs_loop neighbors dmap (v # q) =
     (if v \<ge> length neighbors then Inl IndexError
      else case map_of dmap v of
             None \<Rightarrow> Inl KeyError
           | Some dv \<Rightarrow>
               bfs_loop neighbors (fst (foldl (visit dv) (dmap, q) (neighbors ! v)))
                                  (snd (foldl (visit dv) (dmap, q) (neighbors ! v))))"
  by pat_completeness auto
termination
proof (relation "inv_image (less_than <*lex*> less_than)
         (\<lambda>(neighbors, dmap, q). (card (set (concat neighbors) - dist_keys dmap), length q))")
  show "wf (inv_image (less_than <*lex*> less_than)
         (\<lambda>(neighbors, dmap, q). (card (set (concat neighbors) - dist_keys dmap), length q)))"
    by (intro wf_inv_image wf_lex_prod wf_less_than)
next
  fix neighbors :: "nat list list" and dmap :: "(nat \<times> nat) list" and v q dv
  assume v: "\<not> length neighbors \<le> v" and "map_of dmap v = Some dv"
  have step: "dist_keys (fst (visit dv st nb)) \<subseteq> insert nb (dist_keys (fst st)) \<and>
              dist_keys (fst st) \<subseteq> dist_keys (fst (visit dv st nb))" for st nb
    by (auto simp add: visit_def dist_keys_def)
  have grow: "dist_keys (fst (foldl (visit dv) st nbs)) \<subseteq> dist_keys (fst st) \<union> set nbs \<and>
              dist_keys (fst st) \<subseteq> dist_keys (fst (foldl (visit dv) st nbs))" for st nbs
  proof (induction nbs arbitrary: st)
    case Nil
    then show ?case by simp
  next
    case (Cons nb nbs)
    from step[of st nb] Cons.IH[of "visit dv st nb"] show ?case
      by (simp only: foldl_Cons set_simps) blast
  qed
  have same: "foldl (visit dv) st nbs = st"
    if "dist_keys (fst (foldl (visit dv) st nbs)) = dist_keys (fst st)" for st nbs
    using that
  proof (induction nbs arbitrary: st)
    case Nil
    then show ?case by simp
  next
    case (Cons nb nbs)
    let ?s = "visit dv st nb"
    have "dist_keys (fst ?s) \<subseteq> dist_keys (fst (foldl (visit dv) ?s nbs))"
      using grow[of ?s nbs] by simp
    with Cons.prems step[of st nb] have eq: "dist_keys (fst ?s) = dist_keys (fst st)"
      by (simp only: foldl_Cons) blast
    have "?s = st"
    proof (rule ccontr)
      assume "?s \<noteq> st"
      then have "map_of (fst st) nb = None" "fst ?s = fst st @ [(nb, dv + 1)]"
        by (auto simp add: visit_def split: if_splits)
      then have "nb \<notin> dist_keys (fst st)" "nb \<in> dist_keys (fst ?s)"
        by (auto simp add: map_of_eq_None_iff dist_keys_def)
      with eq show False by simp
    qed
    with Cons show ?case by simp
  qed
  let ?st = "foldl (visit dv) (dmap, q) (neighbors ! v)"
  let ?U = "set (concat neighbors)"
  have "neighbors ! v \<in> set neighbors" using v by simp
  then have nbs: "set (neighbors ! v) \<subseteq> ?U" by auto
  have keys: "dist_keys (fst ?st) \<subseteq> dist_keys dmap \<union> set (neighbors ! v)"
             "dist_keys dmap \<subseteq> dist_keys (fst ?st)"
    using grow[of "(dmap, q)" "neighbors ! v"] by simp_all
  show "((neighbors, fst ?st, snd ?st), (neighbors, dmap, v # q))
          \<in> inv_image (less_than <*lex*> less_than)
         (\<lambda>(neighbors, dmap, q). (card (set (concat neighbors) - dist_keys dmap), length q))"
  proof (cases "dist_keys (fst ?st) = dist_keys dmap")
    case True
    then have "?st = (dmap, q)" using same[of "(dmap, q)" "neighbors ! v"] by simp
    then show ?thesis by simp
  next
    case False
    with keys obtain x where x: "x \<in> dist_keys (fst ?st)" "x \<notin> dist_keys dmap" by blast
    with keys(1) nbs have xU: "x \<in> ?U" by blast
    have "?U - dist_keys (fst ?st) \<subset> ?U - dist_keys dmap"
      using keys(2) x xU by blast
    then have "card (?U - dist_keys (fst ?st)) < card (?U - dist_keys dmap)"
      by (intro psubset_card_mono) (simp_all del: set_concat)
    then show ?thesis by (simp add: case_prod_beta del: set_concat)
  qed
qed

text \<open>
  Nose and tail are the first vertex of smallest and of largest \<open>z\<close>; \<open>min\<close> over an
  empty range is the \<open>ValueError\<close>.
\<close>

definition compute_topological_layers ::
  "vertex list \<Rightarrow> nat list list \<Rightarrow> error + ((nat \<times> nat) list \<times> nat \<times> nat)" where
  "compute_topological_layers verts_m neighbors =
     (if verts_m = [] then Inl ValueError
      else
        let nose = first_min_by (\<lambda>i. vz (verts_m ! i)) [0 ..< length verts_m];
            tail = first_max_by (\<lambda>i. vz (verts_m ! i)) [0 ..< length verts_m]
        in case bfs_loop neighbors [(nose, 0)] [nose] of
             Inl e \<Rightarrow> Inl e
           | Inr dmap \<Rightarrow> Inr (dmap, nose, tail))"

subsection \<open>\<open>build_station_vertex_groups\<close>\<close>

text \<open>\<open>buckets[d]\<close>: the vertices at distance \<open>d\<close>, in the order of \<open>dmap\<close>.\<close>

definition bucket :: "(nat \<times> nat) list \<Rightarrow> nat \<Rightarrow> nat list" where
  "bucket dmap d = map fst (filter (\<lambda>p. snd p = d) dmap)"

definition d_values :: "(nat \<times> nat) list \<Rightarrow> nat list" where
  "d_values dmap = sort (remdups (map snd dmap))"

fun mid_stations ::
  "(nat \<times> nat) list \<Rightarrow> nat \<Rightarrow> nat list \<Rightarrow> nat list list \<Rightarrow> error + nat list list" where
  "mid_stations dmap tail_d [] stations = Inr stations"
| "mid_stations dmap tail_d (d # ds) stations =
     (if d = 0 \<or> d = tail_d then mid_stations dmap tail_d ds stations
      else
        let ring = bucket dmap d; n_ring = length ring
        in if n_ring = 0 then mid_stations dmap tail_d ds stations
           else if \<not> (8 \<le> n_ring \<and> n_ring \<le> 16) then Inl ValueError
           else mid_stations dmap tail_d ds (stations @ [ring]))"

definition build_station_vertex_groups ::
  "vertex list \<Rightarrow> nat list list \<Rightarrow> int \<Rightarrow> error + nat list list" where
  "build_station_vertex_groups verts_m neighbors max_stations =
     (case compute_topological_layers verts_m neighbors of
        Inl e \<Rightarrow> Inl e
      | Inr (dmap, nose, tail) \<Rightarrow>
          if fold min (d_values dmap) (hd (d_values dmap)) \<noteq> 0 then Inl AssertionError
          else
            let tail_candidate = first_max_by (\<lambda>i. vz (verts_m ! i)) [0 ..< length verts_m]
            in case map_of dmap tail_candidate of
                 None \<Rightarrow> Inl KeyError
               | Some tail_d \<Rightarrow>
                   (case mid_stations dmap tail_d (d_values dmap) [ [nose] ] of
                      Inl e \<Rightarrow> Inl e
                    | Inr stations \<Rightarrow>
                        if length (bucket dmap tail_d) \<noteq> 1 then Inl ValueError
                        else if int (length (stations @ [bucket dmap tail_d])) > max_stations
                        then Inl ValueError
                        else Inr (stations @ [bucket dmap tail_d])))"

text \<open>
  The condition of a malformed layering: the layer of the tail is not a single vertex,
  or a layer other than that of the nose and that of the tail has fewer than 8 or more
  than 16 vertices.
\<close>

definition malformed :: "(nat \<times> nat) list \<Rightarrow> nat \<Rightarrow> bool" where
  "malformed dmap tail_d =
     (length (bucket dmap tail_d) \<noteq> 1 \<or>
      (\<exists>d \<in> snd ` set dmap. d \<noteq> 0 \<and> d \<noteq> tail_d \<and>
         (length (bucket dmap d) < 8 \<or> 16 < length (bucket dmap d))))"

subsection \<open>\<open>build_pm_rings_for_mesh\<close>\<close>

definition recenter :: "vertex list \<Rightarrow> vertex list" where
  "recenter verts_m =
     (let xs = map vx verts_m;
          min_x = fold min xs (hd xs);
          max_x = fold max xs (hd xs);
          center_x_m = (min_x + max_x) / 2
      in map (\<lambda>v. (vx v - center_x_m, vy v, vz v)) verts_m)"

definition part_x_of :: "vertex list \<Rightarrow> real" where
  "part_x_of verts_m =
     (let xs = map vx verts_m;
          min_x = fold min xs (hd xs);
          max_x = fold max xs (hd xs);
          center_x_m = (min_x + max_x) / 2
      in center_x_m * FT_PER_M)"

fun rings_loop ::
  "vertex list \<Rightarrow> nat list list \<Rightarrow> vertex list list \<Rightarrow> nat \<Rightarrow> error + (vertex list list \<times> nat)" where
  "rings_loop verts_local [] rings half_n_max = Inr (rings, half_n_max)"
| "rings_loop verts_local (station # rest) rings half_n_max =
     (if \<exists>idx \<in> set station. idx \<ge> length verts_local then Inl IndexError
      else if length station = 1 then
        rings_loop verts_local rest (rings @ [tip_ring (verts_local ! hd station)]) half_n_max
      else
        case mid_ring (map (\<lambda>idx. verts_local ! idx) station) of
          Inl e \<Rightarrow> Inl e
        | Inr (ring, n_half) \<Rightarrow>
            rings_loop verts_local rest (rings @ [ring])
                       (if n_half > half_n_max then n_half else half_n_max))"

definition build_pm_rings_for_mesh ::
  "(nat list \<Rightarrow> nat list) \<Rightarrow> vertex list \<Rightarrow> nat list list
     \<Rightarrow> error + (real \<times> vertex list list \<times> nat)" where
  "build_pm_rings_for_mesh set_list verts_m faces =
     (if verts_m = [] then Inr (0, [], 0)
      else
        case build_vertex_adjacency set_list (length verts_m) faces of
          Inl e \<Rightarrow> Inl e
        | Inr neighbors \<Rightarrow>
            (case build_station_vertex_groups (recenter verts_m) neighbors 20 of
               Inl e \<Rightarrow> Inl e
             | Inr station_vertex_groups \<Rightarrow>
                 (case rings_loop (recenter verts_m) station_vertex_groups [] 0 of
                    Inl e \<Rightarrow> Inl e
                  | Inr (rings, half_n_max) \<Rightarrow> Inr (part_x_of verts_m, rings, half_n_max))))"

subsection \<open>\<open>build_bodies_from_obj\<close>\<close>

text \<open>
  The groups of the OBJ file as the loader returns them: name, local vertices and
  faces, in file order, with distinct names.
\<close>

type_synonym mesh_group = "string \<times> vertex list \<times> nat list list"

record body =
  b_index :: int
  b_group_name :: string
  b_part_x_ft :: real
  b_part_rad_ft :: real
  b_rings :: "vertex list list"
  b_half_n_max :: nat
  b_pm_name :: string

definition priority_names :: "string list" where
  "priority_names = [''Fuselage_Chieftain_fuse_only_Mesh.0001'', ''LF_Cowling_Cylinder.001'',
                     ''RT_Cowling_Cylinder.002'']"

definition body_order :: "mesh_group list \<Rightarrow> string list" where
  "body_order groups =
     (let names = map fst groups;
          order = filter (\<lambda>name. name \<in> set names) priority_names
      in order @ filter (\<lambda>name. name \<notin> set order) names)"

text \<open>
  The loop over the groups: a group without faces or with fewer than 10 vertices is
  skipped; an exception of \<open>build_pm_rings_for_mesh\<close> ends the loop.
\<close>

fun bodies_loop ::
  "(nat list \<Rightarrow> nat list) \<Rightarrow> (string \<rightharpoonup> vertex list \<times> nat list list)
     \<Rightarrow> (nat \<times> string) list \<Rightarrow> body list \<Rightarrow> error + body list" where
  "bodies_loop set_list groups [] bodies = Inr bodies"
| "bodies_loop set_list groups (item # rest) bodies =
     (case groups (snd item) of
        None \<Rightarrow> Inl KeyError
      | Some (verts_m, faces) \<Rightarrow>
          if faces = [] then bodies_loop set_list groups rest bodies
          else if length verts_m < 10 then bodies_loop set_list groups rest bodies
          else
            case build_pm_rings_for_mesh set_list verts_m faces of
              Inl e \<Rightarrow> Inl e
            | Inr (part_x_ft, rings, half_n_max) \<Rightarrow>
                if rings = [] then bodies_loop set_list groups rest bodies
                else bodies_loop set_list groups rest
                       (bodies @ [\<lparr>b_index = int (fst item), b_group_name = snd item,
                                    b_part_x_ft = part_x_ft,
                                    b_part_rad_ft = compute_part_rad_from_rings rings 1,
                                    b_rings = rings, b_half_n_max = half_n_max,
                                    b_pm_name = snd item\<rparr>]))"

definition build_bodies_from_obj ::
  "(nat list \<Rightarrow> nat list) \<Rightarrow> mesh_group list \<Rightarrow> error + body list" where
  "build_bodies_from_obj set_list groups =
     bodies_loop set_list (map_of groups) (enumerate 0 (body_order groups)) []"

subsection \<open>\<open>generate_bodies_and_rewrite_acf\<close>\<close>

record mesh_row =
  r_mesh_name :: string
  r_body_index :: int
  r_pm_name :: string

text \<open>\<open>bodies_by_index\<close>, a dictionary in insertion order.\<close>

fun assign_rows ::
  "(string \<rightharpoonup> body) \<Rightarrow> mesh_row list \<Rightarrow> (int \<times> body) list \<Rightarrow> (int \<times> body) list" where
  "assign_rows by_name [] bodies_by_index = bodies_by_index"
| "assign_rows by_name (row # rows) bodies_by_index =
     (case by_name (r_mesh_name row) of
        None \<Rightarrow> assign_rows by_name rows bodies_by_index
      | Some src_body \<Rightarrow>
          if r_body_index row \<in> fst ` set bodies_by_index
          then assign_rows by_name rows bodies_by_index
          else assign_rows by_name rows
                 (bodies_by_index @
                  [(r_body_index row,
                    src_body\<lparr>b_index := r_body_index row,
                              b_pm_name := (if strip (r_pm_name row) \<noteq> [] then strip (r_pm_name row)
                                            else r_mesh_name row)\<rparr>)]))"

text \<open>
  The loop that builds the block of every body. \<open>block_from_template\<close> stands for
  \<open>build_body_block_from_template\<close> with the template file of the run.
\<close>

fun blocks_loop ::
  "(body list \<Rightarrow> nat \<Rightarrow> error + string list) \<Rightarrow> body list \<Rightarrow> nat list \<Rightarrow> string list
     \<Rightarrow> error + string list" where
  "blocks_loop block_from_template ordered_bodies [] all_lines = Inr all_lines"
| "blocks_loop block_from_template ordered_bodies (i # rest) all_lines =
     (let ordered_bodies' = ordered_bodies[i := (ordered_bodies ! i)\<lparr>b_index := int i\<rparr>]
      in case block_from_template ordered_bodies' i of
           Inl e \<Rightarrow> Inl e
         | Inr body_lines \<Rightarrow>
             blocks_loop block_from_template ordered_bodies' rest (all_lines @ body_lines))"

text \<open>
  The result is the list of lines written to the output file, or \<open>None\<close> when the run
  ends without writing.
\<close>

definition generate_bodies_and_rewrite_acf ::
  "(nat list \<Rightarrow> nat list) \<Rightarrow> (body list \<Rightarrow> nat \<Rightarrow> error + string list) \<Rightarrow> mesh_group list
     \<Rightarrow> string list \<Rightarrow> mesh_row list \<Rightarrow> string list option" where
  "generate_bodies_and_rewrite_acf set_list block_from_template groups acf_lines mesh_rows =
     (case build_bodies_from_obj set_list groups of
        Inl e \<Rightarrow> None
      | Inr bodies \<Rightarrow>
          let by_name = map_of (rev (map (\<lambda>b. (b_group_name b, b)) bodies));
              bodies_by_index = assign_rows by_name mesh_rows []
          in
          if bodies_by_index = [] then None
          else
            let indices = sort (map fst bodies_by_index);
                expected = map int [0 ..< length indices]
            in
            if indices \<noteq> expected then None
            else
              let ordered_bodies = List.map_filter (map_of bodies_by_index) indices
              in case blocks_loop block_from_template ordered_bodies
                        [0 ..< length ordered_bodies] [] of
                   Inl e \<Rightarrow> None
                 | Inr all_lines \<Rightarrow>
                     (case rewrite_acf_bodies acf_lines all_lines of
                        Inl e \<Rightarrow> None
                      | Inr new_lines \<Rightarrow> Some new_lines))"

text \<open>A sample OBJ content: a flat four-vertex group and a ten-vertex body.\<close>

definition wing_verts :: "vertex list" where
  "wing_verts = [(0, 0, 0), (1, 0, 1), (- 1, 0, 1), (0, 0, 2)]"

definition wing_faces :: "nat list list" where
  "wing_faces = [ [0, 1, 3, 2] ]"

definition fuse_verts :: "vertex list" where
  "fuse_verts = [(0, 0, 0),
                 (0, 1, 1), (1, 1, 1), (1, 0, 1), (1, - 1, 1),
                 (0, - 1, 1), (- 1, - 1, 1), (- 1, 0, 1), (- 1, 1, 1),
                 (0, 0, 2)]"

definition fuse_faces :: "nat list list" where
  "fuse_faces = [ [0, 1, 2], [0, 2, 3], [0, 3, 4], [0, 4, 5], [0, 5, 6], [0, 6, 7], [0, 7, 8],
                 [0, 8, 1],
                 [9, 2, 1], [9, 3, 2], [9, 4, 3], [9, 5, 4], [9, 6, 5], [9, 7, 6], [9, 8, 7],
                 [9, 1, 8] ]"

text \<open>
  The faces of a body whose nose fan covers only half of the ring: the first layer has
  five vertices and the layer of the tail more than one.
\<close>

definition open_fuse_faces :: "nat list list" where
  "open_fuse_faces = [ [0, 1, 2], [0, 2, 3], [0, 3, 4], [0, 4, 5],
                      [9, 2, 1], [9, 3, 2], [9, 4, 3], [9, 5, 4], [9, 6, 5], [9, 7, 6], [9, 8, 7],
                      [9, 1, 8] ]"

text \<open>
  \<open>build_body_block_from_template\<close> for an empty template file: after the look-up
  \<open>bodies[body_index]\<close> no line is produced.
\<close>

definition block_from_empty_template :: "body list \<Rightarrow> nat \<Rightarrow> error + string list" where
  "block_from_empty_template bodies body_index =
     (if body_index < length bodies then Inr [] else Inl IndexError)"


section \<open>Properties of the emission order\<close>

lemma pm_i_large:
  "11 \<le> n \<Longrightarrow> pm_i_print_order n = [0, 1] @ [10 .. n - 1] @ [2, 3, 4, 5, 6, 7, 8, 9]"
  by (simp add: pm_i_print_order_def order_tail_def Let_def)

lemma pm_i_nonpos: "n \<le> 0 \<Longrightarrow> pm_i_print_order n = []"
  by (simp add: pm_i_print_order_def order_tail_def Let_def)

lemma pm_i_small: "0 < n \<Longrightarrow> n \<le> 10 \<Longrightarrow> pm_i_print_order n = [0 .. n - 1]"
proof -
  assume "0 < n" "n \<le> 10"
  then consider "n = 1" | "n = 2" | "n = 3" | "n = 4" | "n = 5" | "n = 6" | "n = 7" | "n = 8" | "n = 9" | "n = 10"
    by atomize_elim arith
  then show ?thesis
    by cases (simp_all add: pm_i_print_order_def order_tail_def Let_def upto_rec1)
qed

lemma pm_j_eq_i: "pm_j_print_order n = pm_i_print_order n"
  by (simp add: pm_i_print_order_def pm_j_print_order_def)

lemma pm_i_distinct_set: "distinct (pm_i_print_order n) \<and> set (pm_i_print_order n) = {0 ..< n}"
proof -
  consider "n \<le> 0" | "0 < n" "n \<le> 10" | "11 \<le> n" by atomize_elim arith
  then show ?thesis
  proof cases
    case 1 then show ?thesis by (simp add: pm_i_nonpos)
  next
    case 2 then show ?thesis by (auto simp add: pm_i_small)
  next
    case 3 then show ?thesis by (auto simp add: pm_i_large) arith
  qed
qed

lemma concat_pairs_product: "concat (map (\<lambda>i. map (\<lambda>j. (i, j)) ys) xs) = List.product xs ys"
  by (induction xs) simp_all

lemma cell_order_distinct: "distinct (cell_order ni nj)"
  unfolding cell_order_def concat_pairs_product
  by (simp add: distinct_product pm_i_distinct_set pm_j_eq_i)

lemma cell_order_set: "set (cell_order ni nj) = {0 ..< ni} \<times> {0 ..< nj}"
  unfolding cell_order_def by (auto simp add: pm_i_distinct_set pm_j_eq_i)

text \<open>
  Claim C7. For every count \<open>n\<close> (also a non-positive one, where the order is empty),
  \<open>_pm_i_print_order n\<close> and \<open>_pm_j_print_order n\<close> are the same list, a permutation of
  \<open>0..n-1\<close>; from \<open>n = 11\<close> on it is \<open>0, 1, 10, ..., n-1, 2, ..., 9\<close>; and the cells
  \<open>(i, j)\<close> visited by the two nested loops are each visited exactly once.
\<close>

theorem pm_print_order_permutation:
  "distinct (pm_i_print_order n) \<and> set (pm_i_print_order n) = {0 ..< n} \<and>
   distinct (pm_j_print_order n) \<and> set (pm_j_print_order n) = {0 ..< n} \<and>
   (11 \<le> n \<longrightarrow> pm_i_print_order n = [0, 1] @ [10 .. n - 1] @ [2, 3, 4, 5, 6, 7, 8, 9] \<and>
                pm_j_print_order n = [0, 1] @ [10 .. n - 1] @ [2, 3, 4, 5, 6, 7, 8, 9]) \<and>
   distinct (cell_order ni nj) \<and> set (cell_order ni nj) = {0 ..< ni} \<times> {0 ..< nj}"
  using pm_i_distinct_set[of n] cell_order_distinct[of ni nj] cell_order_set[of ni nj]
  by (simp add: pm_j_eq_i pm_i_large)

theorem pm_print_order_permutation_witness:
  "(11::int) \<le> 20 \<and>
   pm_i_print_order 20 = [0, 1, 10, 11, 12, 13, 14, 15, 16, 17, 18, 19, 2, 3, 4, 5, 6, 7, 8, 9] \<and>
   pm_j_print_order 18 = [0, 1, 10, 11, 12, 13, 14, 15, 16, 17, 2, 3, 4, 5, 6, 7, 8, 9] \<and>
   distinct (cell_order 20 18) \<and> set (cell_order 20 18) = {0 ..< 20} \<times> {0 ..< 18}"
  using pm_print_order_permutation[of 20 20 18] pm_print_order_permutation[of 18 20 18]
  by (simp add: upto_rec1)


section \<open>Properties of the config patcher\<close>

lemma first_index_none: "\<forall>x \<in> set xs. \<not> p x \<Longrightarrow> first_index p xs d = d"
  by (simp add: first_index_def list_ex_iff)

lemma first_index_app: "\<forall>x \<in> set pre. \<not> p x \<Longrightarrow> p y \<Longrightarrow> first_index p (pre @ y # ys) d = length pre"
  by (simp add: first_index_def list_ex_iff takeWhile_append2) 

lemma replace_no_lines:
  "\<forall>l \<in> set L. \<not> is_body_line b l \<Longrightarrow> replace_body_block L b nb = L @ nb"
  by (simp add: replace_body_block_def Let_def first_index_none)

lemma replace_contiguous:
  assumes pre: "\<forall>l \<in> set pre. \<not> is_body_line b l"
      and blk: "\<forall>l \<in> set blk. is_body_line b l" "blk \<noteq> []"
      and post: "\<forall>l \<in> set post. \<not> is_body_line b l"
  shows "replace_body_block (pre @ blk @ post) b nb = pre @ nb @ post"
proof -
  obtain y ys where b: "blk = y # ys" using blk(2) by (cases blk) auto
  have k: "filter (\<lambda>l. \<not> is_body_line b l) (pre @ blk @ post) = pre @ post"
    using pre blk(1) post by (simp add: filter_id_conv filter_empty_conv)
  have f: "first_index (is_body_line b) (pre @ blk @ post) d = length pre" for d
    using first_index_app[of pre "is_body_line b" y "ys @ post" d] pre blk(1) b by simp
  show ?thesis
    unfolding replace_body_block_def Let_def k f by simp
qed

text \<open>
  The frame property of \<open>replace_body_block\<close>: when the new block consists of lines of
  the body, the lines of the result that are not lines of the body are those of the
  input, in the same order.
\<close>

lemma replace_body_block_frame:
  "\<forall>l \<in> set nb. is_body_line b l \<Longrightarrow>
   filter (\<lambda>l. \<not> is_body_line b l) (replace_body_block L b nb) = filter (\<lambda>l. \<not> is_body_line b l) L"
proof -
  assume nb: "\<forall>l \<in> set nb. is_body_line b l"
  let ?kept = "filter (\<lambda>l. \<not> is_body_line b l) L"
  have 1: "filter (\<lambda>l. \<not> is_body_line b l) nb = []" using nb by (simp add: filter_empty_conv)
  have 2: "filter (\<lambda>l. \<not> is_body_line b l) (take n ?kept) = take n ?kept" for n
    by (rule filter_True) (auto dest: in_set_takeD)
  have 3: "filter (\<lambda>l. \<not> is_body_line b l) (drop n ?kept) = drop n ?kept" for n
    by (rule filter_True) (auto dest: in_set_dropD)
  show ?thesis
    by (simp add: replace_body_block_def Let_def 1 2 3)
qed

lemma find_markers_sound:
  "find_markers ls idx pb0 = (Some pb, Some pe) \<Longrightarrow>
     \<exists>k. pe = idx + k \<and> k < length ls \<and> strip (ls ! k) = ''PROPERTIES_END'' \<and>
       (pb0 = Some pb \<or> (\<exists>j<k. pb = idx + j \<and> strip (ls ! j) = ''PROPERTIES_BEGIN''))"
proof (induction ls arbitrary: idx pb0)
  case Nil
  then show ?case by simp
next
  case (Cons line rest)
  show ?case
  proof (cases "strip line = ''PROPERTIES_BEGIN''")
    case True
    with Cons.prems have "find_markers rest (Suc idx) (Some idx) = (Some pb, Some pe)" by simp
    from Cons.IH[OF this] obtain k where k: "pe = Suc idx + k" "k < length rest"
      "strip (rest ! k) = ''PROPERTIES_END''"
      "Some idx = Some pb \<or> (\<exists>j<k. pb = Suc idx + j \<and> strip (rest ! j) = ''PROPERTIES_BEGIN'')"
      by blast
    from k(4) have "\<exists>j<Suc k. pb = idx + j \<and> strip ((line # rest) ! j) = ''PROPERTIES_BEGIN''"
    proof
      assume "Some idx = Some pb"
      then show ?thesis using True by (intro exI[of _ 0]) simp
    next
      assume "\<exists>j<k. pb = Suc idx + j \<and> strip (rest ! j) = ''PROPERTIES_BEGIN''"
      then obtain j where "j < k" "pb = Suc idx + j" "strip (rest ! j) = ''PROPERTIES_BEGIN''" by blast
      then show ?thesis by (intro exI[of _ "Suc j"]) simp
    qed
    with k(1-3) show ?thesis by (intro exI[of _ "Suc k"]) simp
  next
    case False
    show ?thesis
    proof (cases "strip line = ''PROPERTIES_END''")
      case True
      with False Cons.prems show ?thesis by (intro exI[of _ 0]) auto
    next
      case F2: False
      with False Cons.prems have "find_markers rest (Suc idx) pb0 = (Some pb, Some pe)" by simp
      from Cons.IH[OF this] obtain k where k: "pe = Suc idx + k" "k < length rest"
        "strip (rest ! k) = ''PROPERTIES_END''"
        "pb0 = Some pb \<or> (\<exists>j<k. pb = Suc idx + j \<and> strip (rest ! j) = ''PROPERTIES_BEGIN'')"
        by blast
      from k(4) have "pb0 = Some pb \<or> (\<exists>j<Suc k. pb = idx + j \<and> strip ((line # rest) ! j) = ''PROPERTIES_BEGIN'')"
      proof
        assume "pb0 = Some pb" then show ?thesis by simp
      next
        assume "\<exists>j<k. pb = Suc idx + j \<and> strip (rest ! j) = ''PROPERTIES_BEGIN''"
        then obtain j where "j < k" "pb = Suc idx + j" "strip (rest ! j) = ''PROPERTIES_BEGIN''" by blast
        then have "Suc j < Suc k \<and> pb = idx + Suc j \<and> strip ((line # rest) ! Suc j) = ''PROPERTIES_BEGIN''" by simp
        then show ?thesis by blast
      qed
      with k(1-3) show ?thesis by (intro exI[of _ "Suc k"]) simp
    qed
  qed
qed

lemma find_markers_top:
  assumes "find_markers L 0 None = (Some pb, Some pe)"
  shows "pb < pe \<and> pe < length L \<and> strip (L ! pb) = ''PROPERTIES_BEGIN'' \<and> strip (L ! pe) = ''PROPERTIES_END''"
  using find_markers_sound[OF assms] by auto

lemma body_span_none:
  "\<forall>idx \<in> set is. \<not> is_any_body_line (lines ! idx) \<Longrightarrow> foldl (body_span_step lines) st is = st"
  by (induction "is" arbitrary: st) (simp_all add: body_span_step_def)

lemma rewrite_no_bodies:
  assumes m: "find_markers L 0 None = (Some pb, Some pe)"
      and nb: "\<forall>idx \<in> {pb <..< pe}. \<not> is_any_body_line (L ! idx)"
  shows "rewrite_acf_bodies L new = Inr (take (Suc pb) L @ new @ drop (Suc pb) L)"
proof -
  have lt: "pb < pe" using find_markers_top[OF m] by simp
  have "find_body_span L pb pe = (None, None)"
    unfolding find_body_span_def using nb by (intro body_span_none) auto
  then show ?thesis using lt by (simp add: rewrite_acf_bodies_def m)
qed

text \<open>
  Claim C1, as stated, fails for \<open>replace_body_block\<close>: a document with no line for
  body 7 gets the new block after its last line, behind \<open>PROPERTIES_END\<close>.
\<close>

theorem replace_body_block_appends_at_end:
  "replace_body_block
     [''PROPERTIES_BEGIN'', ''P _body/0/_part_x 1.000000000'', ''PROPERTIES_END''] 7
     [''P _body/7/_part_x 2.000000000'']
   = [''PROPERTIES_BEGIN'', ''P _body/0/_part_x 1.000000000'', ''PROPERTIES_END'',
      ''P _body/7/_part_x 2.000000000'']"
  by code_simp

text \<open>
  Claim C1, amended. When the document has no line for the body index,
  \<open>replace_body_block\<close> appends the new block after the last line of the document.
  When the properties section of the document has no \<open>P _body/\<close> line at all,
  \<open>rewrite_acf_bodies\<close> inserts the new lines immediately after the
  \<open>PROPERTIES_BEGIN\<close> line.
\<close>

theorem fallback_insertion_position:
  "((\<forall>l \<in> set L. \<not> is_body_line b l) \<longrightarrow> replace_body_block L b nb = L @ nb) \<and>
   (find_markers L 0 None = (Some pb, Some pe) \<and>
    (\<forall>idx \<in> {pb <..< pe}. \<not> is_any_body_line (L ! idx)) \<longrightarrow>
      pb < length L \<and> strip (L ! pb) = ''PROPERTIES_BEGIN'' \<and>
      rewrite_acf_bodies L nb = Inr (take (Suc pb) L @ nb @ drop (Suc pb) L))"
proof (intro conjI impI)
  assume "\<forall>l \<in> set L. \<not> is_body_line b l"
  then show "replace_body_block L b nb = L @ nb" by (rule replace_no_lines)
next
  assume a: "find_markers L 0 None = (Some pb, Some pe) \<and>
    (\<forall>idx \<in> {pb <..< pe}. \<not> is_any_body_line (L ! idx))"
  then show "pb < length L" using find_markers_top[of L pb pe] by simp
  from a show "strip (L ! pb) = ''PROPERTIES_BEGIN''" using find_markers_top[of L pb pe] by simp
  from a show "rewrite_acf_bodies L nb = Inr (take (Suc pb) L @ nb @ drop (Suc pb) L)"
    using rewrite_no_bodies[of L pb pe nb] by simp
qed

theorem fallback_insertion_position_witness:
  "replace_body_block [''A'', ''PROPERTIES_BEGIN'', ''P acf/_name x'', ''PROPERTIES_END''] 7
     [''P _body/7/_part_x 2.000000000'']
   = [''A'', ''PROPERTIES_BEGIN'', ''P acf/_name x'', ''PROPERTIES_END'',
      ''P _body/7/_part_x 2.000000000''] \<and>
   rewrite_acf_bodies [''A'', ''PROPERTIES_BEGIN'', ''P acf/_name x'', ''PROPERTIES_END'']
     [''P _body/7/_part_x 2.000000000'']
   = Inr [''A'', ''PROPERTIES_BEGIN'', ''P _body/7/_part_x 2.000000000'', ''P acf/_name x'',
          ''PROPERTIES_END'']"
proof -
  let ?L = "[''A'', ''PROPERTIES_BEGIN'', ''P acf/_name x'', ''PROPERTIES_END'']"
  have h1: "\<forall>l \<in> set ?L. \<not> is_body_line 7 l" by code_simp
  have h2: "find_markers ?L 0 None = (Some 1, Some 3)" by code_simp
  have "{1 <..< (3::nat)} = {2}" by auto
  then have h3: "\<forall>idx \<in> {1 <..< (3::nat)}. \<not> is_any_body_line (?L ! idx)"
    by (simp add: is_any_body_line_def startswith_def lstrip_def is_space_def)
  show ?thesis
    using fallback_insertion_position[of ?L 7 "[''P _body/7/_part_x 2.000000000'']" 1 3] h1 h2 h3
    by simp
qed

text \<open>
  Claim C4 at a failing input of \<open>rewrite_acf_bodies\<close>: the line \<open>P acf/_name x\<close> lies
  between two \<open>P _body/\<close> lines, belongs to no body, and is missing from the output.
  (For \<open>replace_body_block\<close> the claim holds: \<open>replace_body_block_frame\<close>.)
\<close>

theorem rewrite_acf_bodies_drops_interleaved_line:
  "rewrite_acf_bodies
     [''PROPERTIES_BEGIN'', ''P _body/0/_part_x 1.000000000'', ''P acf/_name x'',
      ''P _body/1/_part_x 2.000000000'', ''PROPERTIES_END'']
     [''P _body/0/_part_x 3.000000000'']
   = Inr [''PROPERTIES_BEGIN'', ''P _body/0/_part_x 3.000000000'', ''PROPERTIES_END'']"
  by code_simp

text \<open>
  Claim C5, as stated, fails when the lines of the body are not contiguous: the block is
  gathered at the position of its first line.
\<close>

theorem replace_body_block_not_idempotent:
  "filter (is_body_line 0) [''P _body/0/_part_x 1'', ''P acf/_name x'', ''P _body/0/_part_y 2'']
     = [''P _body/0/_part_x 1'', ''P _body/0/_part_y 2''] \<and>
   replace_body_block [''P _body/0/_part_x 1'', ''P acf/_name x'', ''P _body/0/_part_y 2''] 0
     [''P _body/0/_part_x 1'', ''P _body/0/_part_y 2'']
     = [''P _body/0/_part_x 1'', ''P _body/0/_part_y 2'', ''P acf/_name x'']"
  by code_simp

text \<open>
  Claim C5, amended. When the lines of body \<open>b\<close> are contiguous in the document
  (\<open>pre @ blk @ post\<close>, where \<open>blk\<close> holds all of them, possibly none), patching with
  the current block \<open>blk\<close> returns the document unchanged.
\<close>

theorem replace_body_block_idempotent:
  assumes "\<forall>l \<in> set pre. \<not> is_body_line b l"
      and "\<forall>l \<in> set blk. is_body_line b l"
      and "\<forall>l \<in> set post. \<not> is_body_line b l"
  shows "filter (is_body_line b) (pre @ blk @ post) = blk \<and>
         replace_body_block (pre @ blk @ post) b blk = pre @ blk @ post"
proof
  show "filter (is_body_line b) (pre @ blk @ post) = blk"
    using assms by (simp add: filter_id_conv filter_empty_conv)
  show "replace_body_block (pre @ blk @ post) b blk = pre @ blk @ post"
  proof (cases "blk = []")
    case True
    then show ?thesis using replace_no_lines[of "pre @ post" b "[]"] assms by auto
  next
    case False
    then show ?thesis using replace_contiguous[of pre b blk post blk] assms by simp
  qed
qed

theorem replace_body_block_idempotent_witness:
  "replace_body_block
     [''PROPERTIES_BEGIN'', ''P _body/0/_part_x 1'', ''P _body/0/_part_y 2'', ''PROPERTIES_END''] 0
     [''P _body/0/_part_x 1'', ''P _body/0/_part_y 2'']
   = [''PROPERTIES_BEGIN'', ''P _body/0/_part_x 1'', ''P _body/0/_part_y 2'', ''PROPERTIES_END'']"
proof -
  have h1: "\<forall>l \<in> set [''PROPERTIES_BEGIN'']. \<not> is_body_line 0 l" by code_simp
  have h2: "\<forall>l \<in> set [''P _body/0/_part_x 1'', ''P _body/0/_part_y 2'']. is_body_line 0 l"
    by code_simp
  have h3: "\<forall>l \<in> set [''PROPERTIES_END'']. \<not> is_body_line 0 l" by code_simp
  show ?thesis
    using replace_body_block_idempotent[OF h1 h2 h3] by simp
qed


section \<open>Properties of dimension discovery\<close>

lemma prefixes_exclusive:
  "startswith t (dim_prefix b ''i_count'') \<Longrightarrow> \<not> startswith t (dim_prefix b ''j_count'')"
  by (auto simp add: startswith_def dim_prefix_def)

lemma try_last_int_cases:
  "try_last_int t old = (case try_last_int t None of None \<Rightarrow> old | Some v \<Rightarrow> Some v)"
  by (simp add: try_last_int_def split: list.splits option.splits)

lemma dims_loop_inv:
  assumes ex: "\<And>t. startswith t p_i \<Longrightarrow> \<not> startswith t p_j"
  shows "dims_loop p_i p_j ls i0 j0 = (i, j) \<Longrightarrow>
    (i = None \<longleftrightarrow> i0 = None \<and> carried_values p_i ls = []) \<and>
    (\<forall>v. i = Some v \<longrightarrow> i0 = Some v \<or> v \<in> set (carried_values p_i ls)) \<and>
    (j = None \<longleftrightarrow> j0 = None \<and> carried_values p_j ls = []) \<and>
    (\<forall>v. j = Some v \<longrightarrow> j0 = Some v \<or> v \<in> set (carried_values p_j ls))"
proof (induction ls arbitrary: i0 j0)
  case Nil
  then show ?case by (auto simp add: carried_values_def)
next
  case (Cons s rest)
  let ?t = "strip s"
  let ?i = "if startswith ?t p_i then try_last_int ?t i0 else i0"
  let ?j = "if \<not> startswith ?t p_i \<and> startswith ?t p_j then try_last_int ?t j0 else j0"
  have li: "?i = (case line_value p_i s of None \<Rightarrow> i0 | Some v \<Rightarrow> Some v)"
    using try_last_int_cases[of ?t i0] by (simp add: line_value_def Let_def)
  have lj: "?j = (case line_value p_j s of None \<Rightarrow> j0 | Some v \<Rightarrow> Some v)"
    using try_last_int_cases[of ?t j0] ex[of ?t] by (auto simp add: line_value_def Let_def)
  have cvi: "carried_values p_i (s # rest) = (case line_value p_i s of None \<Rightarrow> carried_values p_i rest | Some v \<Rightarrow> v # carried_values p_i rest)"
    by (simp add: carried_values_def split: option.splits)
  have cvj: "carried_values p_j (s # rest) = (case line_value p_j s of None \<Rightarrow> carried_values p_j rest | Some v \<Rightarrow> v # carried_values p_j rest)"
    by (simp add: carried_values_def split: option.splits)
  show ?case
  proof (cases "?i \<noteq> None \<and> ?j \<noteq> None")
    case True
    with Cons.prems have "i = ?i" "j = ?j" by (simp_all add: Let_def)
    with True show ?thesis unfolding li lj cvi cvj
      by (auto split: option.splits)
  next
    case False
    with Cons.prems have "dims_loop p_i p_j rest ?i ?j = (i, j)" by (auto simp add: Let_def)
    from Cons.IH[OF this] show ?thesis unfolding li lj cvi cvj
      by (auto split: option.splits)
  qed
qed

text \<open>
  Claim C9. \<open>read_target_dims_from_acf\<close> returns, for each of \<open>i_count\<close> and
  \<open>j_count\<close>, a value carried by a line of the body's \<open>_locked/i_count\<close>
  (\<open>_locked/j_count\<close>) path whose last token parses as an integer, when there is such a
  line; when there is none (no such line, or none that parses), it returns the default,
  20 for \<open>i_count\<close> and 18 for \<open>j_count\<close>.
\<close>

theorem read_target_dims_values:
  "(carried_values (dim_prefix b ''i_count'') L = [] \<longrightarrow>
      fst (read_target_dims_from_acf L b) = 20) \<and>
   (carried_values (dim_prefix b ''i_count'') L \<noteq> [] \<longrightarrow>
      fst (read_target_dims_from_acf L b) \<in> set (carried_values (dim_prefix b ''i_count'') L)) \<and>
   (carried_values (dim_prefix b ''j_count'') L = [] \<longrightarrow>
      snd (read_target_dims_from_acf L b) = 18) \<and>
   (carried_values (dim_prefix b ''j_count'') L \<noteq> [] \<longrightarrow>
      snd (read_target_dims_from_acf L b) \<in> set (carried_values (dim_prefix b ''j_count'') L))"
proof -
  obtain i j where ij:
    "dims_loop (dim_prefix b ''i_count'') (dim_prefix b ''j_count'') L None None = (i, j)"
    by (cases "dims_loop (dim_prefix b ''i_count'') (dim_prefix b ''j_count'') L None None") auto
  have r: "read_target_dims_from_acf L b =
             ((case i of None \<Rightarrow> 20 | Some v \<Rightarrow> v), (case j of None \<Rightarrow> 18 | Some v \<Rightarrow> v))"
    by (simp add: read_target_dims_from_acf_def ij)
  from dims_loop_inv[OF prefixes_exclusive ij]
  show ?thesis unfolding r by (cases i; cases j) auto
qed

theorem read_target_dims_values_witness:
  "read_target_dims_from_acf
     [''P _body/1/_locked/i_count 12'', ''  P _body/1/_locked/j_count x''] 1 = (12, 18) \<and>
   read_target_dims_from_acf [''P _body/1/_part_x 0.5'', ''P _body/1/_locked/j_count 10''] 1
     = (20, 10)"
proof -
  let ?L1 = "[''P _body/1/_locked/i_count 12'', ''  P _body/1/_locked/j_count x'']"
  let ?L2 = "[''P _body/1/_part_x 0.5'', ''P _body/1/_locked/j_count 10'']"
  have c1: "carried_values (dim_prefix 1 ''i_count'') ?L1 = [12]"
           "carried_values (dim_prefix 1 ''j_count'') ?L1 = []"
    by code_simp+
  have c2: "carried_values (dim_prefix 1 ''i_count'') ?L2 = []"
           "carried_values (dim_prefix 1 ''j_count'') ?L2 = [10]"
    by code_simp+
  show ?thesis
    using read_target_dims_values[of 1 ?L1] read_target_dims_values[of 1 ?L2]
    unfolding c1 c2 by (simp add: prod_eq_iff)
qed


section \<open>Properties of the grid mapper\<close>

lemma pad_loop_eq: "pad_loop out t = out @ replicate (nat (t - int (length out))) []"
proof (induction out t rule: pad_loop.induct)
  case (1 out t)
  show ?case
  proof (cases "int (length out) < t")
    case True
    then have n: "nat (t - int (length out)) = Suc (nat (t - int (length (out @ [ [] ]))))" by simp
    from True have "pad_loop out t = pad_loop (out @ [ [] ]) t" by (simp add: pad_loop.simps[of out])
    also have "\<dots> = (out @ [ [] ]) @ replicate (nat (t - int (length (out @ [ [] ])))) []"
      using "1.IH"[OF True] .
    also have "\<dots> = out @ replicate (nat (t - int (length out))) []"
      unfolding n by simp
    finally show ?thesis .
  next
    case False
    then show ?thesis by (simp add: pad_loop.simps[of out])
  qed
qed

lemma pad_or_truncate_closed:
  assumes "0 \<le> t"
  shows "pad_or_truncate_stations sts t = take (nat t) sts @ replicate (nat t - length sts) []"
proof -
  consider "int (length sts) = t" | "int (length sts) > t" | "int (length sts) < t" by linarith
  then show ?thesis
  proof cases
    case 1
    then have "nat t = length sts" by simp
    with 1 show ?thesis by (simp add: pad_or_truncate_stations_def)
  next
    case 2
    then have "min (nat t) (length sts) = nat t" "nat t - length sts = 0" using assms by simp_all
    with 2 assms show ?thesis
      by (simp add: pad_or_truncate_stations_def py_slice_def slice_bound_def)
  next
    case 3
    then have "nat (t - int (length sts)) = nat t - length sts" by simp
    with 3 show ?thesis by (simp add: pad_or_truncate_stations_def pad_loop_eq)
  qed
qed

lemma pad_or_truncate_subset: "set (pad_or_truncate_stations sts t) \<subseteq> insert [] (set sts)"
proof -
  have "set (py_slice sts 0 t) \<subseteq> set sts"
    unfolding py_slice_def by (meson set_drop_subset set_take_subset subset_trans)
  then show ?thesis
    by (auto simp add: pad_or_truncate_stations_def pad_loop_eq)
qed

lemma emit_station_index:
  "map geo_index (emit_station b J w li i vs) = station_cells J i"
  by (simp add: emit_station_def station_cells_def Let_def map_concat comp_def geo_def geo_index_def)

lemma emit_station_i: "l \<in> set (emit_station b J w li i vs) \<Longrightarrow> gl_i l = i \<and> gl_body l = b"
  by (auto simp add: emit_station_def Let_def geo_def split: if_splits)

lemma emit_station_empty: "l \<in> set (emit_station b J w li i []) \<Longrightarrow> gl_val l = 0"
  by (auto simp add: emit_station_def geo_def)

lemma map_fst_enum: "map (\<lambda>p. f (fst p)) (enumerate n xs) = map f [n ..< n + length xs]"
proof -
  have "map (\<lambda>p. f (fst p)) (enumerate n xs) = map f (map fst (enumerate n xs))"
    unfolding map_map comp_def ..
  then show ?thesis unfolding map_fst_enumerate .
qed

lemma generate_index:
  "map geo_index (generate_geo_xyz_literal_from_stations sts b ti tj w) =
     concat (map (station_cells (nat (max 2 tj))) [0 ..< length (pad_or_truncate_stations sts ti)])"
  by (simp add: generate_geo_xyz_literal_from_stations_def Let_def map_concat comp_def
                emit_station_index map_fst_enum)

lemma generate_line_origin:
  assumes "l \<in> set (generate_geo_xyz_literal_from_stations sts b ti tj w)"
  shows "\<exists>i < length (pad_or_truncate_stations sts ti).
           l \<in> set (emit_station b (nat (max 2 tj)) w (last_non_empty_idx (pad_or_truncate_stations sts ti)) i
                      (pad_or_truncate_stations sts ti ! i))"
  using assms
  by (auto simp add: generate_geo_xyz_literal_from_stations_def Let_def in_set_enumerate_eq)

lemma generate_zero_beyond:
  assumes "0 \<le> ti" "l \<in> set (generate_geo_xyz_literal_from_stations sts b ti tj w)"
          "length sts \<le> gl_i l"
  shows "gl_val l = 0"
proof -
  let ?p = "pad_or_truncate_stations sts ti"
  from generate_line_origin[OF assms(2)] obtain i where i: "i < length ?p"
    "l \<in> set (emit_station b (nat (max 2 tj)) w (last_non_empty_idx ?p) i (?p ! i))" by blast
  then have gi: "gl_i l = i" using emit_station_i by blast
  have "?p ! i = []"
    using i(1) assms(3) gi unfolding pad_or_truncate_closed[OF assms(1)]
    by (simp add: nth_append)
  with i(2) show ?thesis using emit_station_empty by metis
qed

lemma map_enum_nth:
  "map (\<lambda>p. g (fst p) (snd p)) (enumerate 0 xs) = map (\<lambda>i. g i (xs ! i)) [0 ..< length xs]"
  by (rule nth_equalityI) (simp_all add: nth_enumerate_eq)

lemma generate_as_map:
  "generate_geo_xyz_literal_from_stations sts b ti tj w =
     concat (map (\<lambda>i. emit_station b (nat (max 2 tj)) w
                          (last_non_empty_idx (pad_or_truncate_stations sts ti)) i
                          (pad_or_truncate_stations sts ti ! i))
                 [0 ..< length (pad_or_truncate_stations sts ti)])"
  by (simp add: generate_geo_xyz_literal_from_stations_def Let_def map_enum_nth)

lemma pad_single:
  "length (pad_or_truncate_stations [s] ti) = nat ti \<and>
   (\<forall>i < nat ti. pad_or_truncate_stations [s] ti ! i = (if i = 0 then s else []))"
proof (cases "0 \<le> ti")
  case True
  show ?thesis unfolding pad_or_truncate_closed[OF True]
    by (auto simp add: nth_append)
next
  case False
  then have "pad_or_truncate_stations [s] ti = []"
    by (simp add: pad_or_truncate_stations_def py_slice_def slice_bound_def)
  with False show ?thesis by simp
qed

lemma emit_tip:
  assumes "s \<noteq> []"
  shows "emit_station b J True li i (if i = 0 then s else []) =
     concat (map (\<lambda>j. [geo b i j 0 0,
                        geo b i j 1 (if i = 0 then mean (map vy s) * FT_PER_M else 0),
                        geo b i j 2 (if i = 0 then mean (map vz s) * FT_PER_M else 0)]) [0 ..< J])"
  using assms by (simp add: emit_station_def Let_def)

lemma mean_sort_key: "mean (map f (sort_key k xs)) = mean (map f xs)"
proof -
  have "sum_list (map f (sort_key k xs)) = sum_list (map f xs)"
    by (metis mset_sort mset_map sum_mset_sum_list)
  moreover have "(sort_key k xs = []) = (xs = [])"
    by (metis length_sort length_0_conv)
  ultimately show ?thesis by (simp add: mean_def)
qed

lemma build_stations_small:
  assumes "verts \<noteq> []" "int (length verts) < verts_per_loop + 2"
  shows "build_stations_from_geometry verts verts_per_loop wtt = Some [sort_key vz verts]"
  using assms by (simp add: build_stations_from_geometry_def Let_def)

lemma generate_single:
  assumes "s \<noteq> []"
  shows "generate_geo_xyz_literal_from_stations [s] b ti tj True =
    concat (map (\<lambda>i. concat (map (\<lambda>j. [geo b i j 0 0,
                        geo b i j 1 (if i = 0 then mean (map vy s) * FT_PER_M else 0),
                        geo b i j 2 (if i = 0 then mean (map vz s) * FT_PER_M else 0)])
                    [0 ..< nat (max 2 tj)])) [0 ..< nat ti])"
proof -
  let ?p = "pad_or_truncate_stations [s] ti"
  have len: "length ?p = nat ti" and nth: "\<And>i. i < nat ti \<Longrightarrow> ?p ! i = (if i = 0 then s else [])"
    using pad_single[of s ti] by auto
  show ?thesis
    unfolding generate_as_map len
    by (rule arg_cong[of _ _ concat], rule map_cong) (simp_all add: nth emit_tip[OF assms])
qed

text \<open>
  Claim C2, as stated, fails in two ways. With \<open>target_j = 1\<close> every station has two
  slots (\<open>J = max(2, target_j)\<close>): slot 1 is emitted. With a negative \<open>target_i\<close> the
  slice \<open>stations[:target_i]\<close> counts from the end: of two stations, one is emitted for
  \<open>target_i = -1\<close>.
\<close>

theorem geo_grid_two_slots_minimum:
  "map geo_index (generate_geo_xyz_literal_from_stations [] 0 1 1 True)
     = [(0, 0, 0), (0, 0, 1), (0, 0, 2), (0, 1, 0), (0, 1, 1), (0, 1, 2)] \<and>
   map gl_i (generate_geo_xyz_literal_from_stations [ [(1, 2, 3)], [(1, 2, 4)] ] 0 (- 1) 2 True)
     = [0, 0, 0, 0, 0, 0]"
  by code_simp

text \<open>
  Claim C2, amended. For every station list and every target shape with
  \<open>target_i \<ge> 0\<close>, the emitted grid has exactly \<open>target_i\<close> stations of
  \<open>max(2, target_j)\<close> slots, three axis lines per slot, in ascending order; the padded
  station list is the first \<open>target_i\<close> stations followed by empty stations; every line
  of a station with index at or beyond the real station count has the value 0; and no
  line has a station index at or beyond \<open>target_i\<close>.
\<close>

theorem geo_grid_shape:
  assumes "0 \<le> target_i"
  shows "pad_or_truncate_stations stations target_i
           = take (nat target_i) stations @ replicate (nat target_i - length stations) [] \<and>
         length (pad_or_truncate_stations stations target_i) = nat target_i \<and>
         map geo_index (generate_geo_xyz_literal_from_stations stations b target_i target_j w)
           = concat (map (station_cells (nat (max 2 target_j))) [0 ..< nat target_i]) \<and>
         (\<forall>l \<in> set (generate_geo_xyz_literal_from_stations stations b target_i target_j w).
            gl_i l < nat target_i \<and> (length stations \<le> gl_i l \<longrightarrow> gl_val l = 0))"
proof -
  let ?p = "pad_or_truncate_stations stations target_i"
  have closed: "?p = take (nat target_i) stations @ replicate (nat target_i - length stations) []"
    by (rule pad_or_truncate_closed[OF assms])
  have len: "length ?p = nat target_i"
    unfolding closed by simp
  have idx: "map geo_index (generate_geo_xyz_literal_from_stations stations b target_i target_j w)
           = concat (map (station_cells (nat (max 2 target_j))) [0 ..< nat target_i])"
    unfolding generate_index len ..
  have lines: "gl_i l < nat target_i \<and> (length stations \<le> gl_i l \<longrightarrow> gl_val l = 0)"
    if l: "l \<in> set (generate_geo_xyz_literal_from_stations stations b target_i target_j w)" for l
  proof -
    from generate_line_origin[OF l] obtain i where i: "i < length ?p"
      "l \<in> set (emit_station b (nat (max 2 target_j)) w (last_non_empty_idx ?p) i (?p ! i))"
      by blast
    then have "gl_i l = i" using emit_station_i by blast
    with i(1) len have "gl_i l < nat target_i" by simp
    then show ?thesis using generate_zero_beyond[OF assms l] by blast
  qed
  from closed len idx lines show ?thesis by blast
qed

theorem geo_grid_shape_witness:
  "pad_or_truncate_stations [ [(0, 1, 2)] ] 2 = [ [(0, 1, 2)], [] ] \<and>
   map geo_index (generate_geo_xyz_literal_from_stations [ [(0, 1, 2)] ] 0 2 2 True)
     = [(0, 0, 0), (0, 0, 1), (0, 0, 2), (0, 1, 0), (0, 1, 1), (0, 1, 2),
        (1, 0, 0), (1, 0, 1), (1, 0, 2), (1, 1, 0), (1, 1, 1), (1, 1, 2)]"
proof -
  have h: "(0::int) \<le> 2" by simp
  have c: "concat (map (station_cells (nat (max 2 2))) [0 ..< nat 2])
     = [(0, 0, 0), (0, 0, 1), (0, 0, 2), (0, 1, 0), (0, 1, 1), (0, 1, 2),
        (1, 0, 0), (1, 0, 1), (1, 0, 2), (1, 1, 0), (1, 1, 1), (1, 1, 2)]"
    by code_simp
  have t: "take (nat 2) [ [(0::real, 1::real, 2::real)] ] @ replicate (nat 2 - length [ [(0::real, 1::real, 2::real)] ]) []
             = [ [(0, 1, 2)], [] ]"
    by code_simp
  show ?thesis
    using geo_grid_shape[OF h, of "[ [(0, 1, 2)] ]" 0 2 True] unfolding c t by simp
qed

text \<open>
  Claim C10. For a non-empty vertex list with fewer than \<open>verts_per_loop + 2\<close> vertices,
  \<open>build_stations_from_geometry\<close> returns one station, the vertices sorted ascending by
  \<open>z\<close>, whatever \<open>with_tip_tail\<close> is; and the emitter, run with tip and tail handling
  on, writes that station as a tip: in every slot of station 0 the \<open>x\<close> value is 0 and
  the other two values are the means of the vertices' \<open>y\<close> and \<open>z\<close>, in feet. The
  stations after it are zero.
\<close>

theorem small_mesh_single_station:
  assumes "verts \<noteq> []" and "int (length verts) < verts_per_loop + 2"
  shows "build_stations_from_geometry verts verts_per_loop with_tip_tail
           = Some [sort_key vz verts] \<and>
         sorted (map vz (sort_key vz verts)) \<and> mset (sort_key vz verts) = mset verts \<and>
         generate_geo_xyz_literal_from_stations [sort_key vz verts] b target_i target_j True
           = concat (map (\<lambda>i. concat (map (\<lambda>j.
                 [geo b i j 0 0,
                  geo b i j 1 (if i = 0 then mean (map vy verts) * FT_PER_M else 0),
                  geo b i j 2 (if i = 0 then mean (map vz verts) * FT_PER_M else 0)])
               [0 ..< nat (max 2 target_j)])) [0 ..< nat target_i])"
proof -
  have ne: "sort_key vz verts \<noteq> []"
    using assms(1) by (metis length_sort length_0_conv)
  show ?thesis
    using build_stations_small[OF assms] generate_single[OF ne, of b target_i target_j]
    unfolding mean_sort_key by simp
qed

theorem small_mesh_single_station_witness:
  "build_stations_from_geometry [(1, 0, 1), (- 1, 0, 0)] 16 True
     = Some [ [(- 1, 0, 0), (1, 0, 1)] ] \<and>
   generate_geo_xyz_literal_from_stations [ [(- 1, 0, 0), (1, 0, 1)] ] 0 1 2 True
     = [geo 0 0 0 0 0, geo 0 0 0 1 0, geo 0 0 0 2 (82021 / 50000),
        geo 0 0 1 0 0, geo 0 0 1 1 0, geo 0 0 1 2 (82021 / 50000)]"
proof -
  have h1: "[(1, 0, 1), (- 1, 0, 0)] \<noteq> ([] :: vertex list)" by simp
  have h2: "int (length [(1::real, 0::real, 1::real), (- 1, 0, 0)]) < 16 + 2" by simp
  have s: "sort_key vz [(1, 0, 1), (- 1, 0, 0)] = [(- 1, 0, 0), (1, 0, 1)]"
    by (simp add: vz_def)
  have m: "mean (map vy [(1, 0, 1), (- 1, 0, 0)]) * FT_PER_M = 0"
          "mean (map vz [(1, 0, 1), (- 1, 0, 0)]) * FT_PER_M = 82021 / 50000"
    by (simp_all add: mean_def vy_def vz_def FT_PER_M_def)
  have u: "[0 ..< nat (max 2 2)] = [0, 1]" "[0 ..< nat 1] = [0]" by code_simp+
  show ?thesis
    using small_mesh_single_station[OF h1 h2, of True 0 1 2] unfolding s m u by simp
qed


section \<open>Properties of the bounding radius\<close>

lemma FT_pos: "0 < FT_PER_M" by (simp add: FT_PER_M_def)

lemma max_default_Max: "xs \<noteq> [] \<Longrightarrow> max_default xs d = Max (set xs)"
  by (cases xs) (simp_all add: max_default_def Max.set_eq_fold[symmetric])

lemma grid_radius_nonempty:
  assumes "verts \<noteq> []"
  shows "compute_grid_radius_ft verts =
           max (Max ((\<lambda>v. \<bar>vx v\<bar>) ` set verts)) (Max ((\<lambda>v. \<bar>vy v\<bar>) ` set verts)) * FT_PER_M + 3"
  using assms by (simp add: compute_grid_radius_ft_def Let_def max_default_Max)

lemma grid_radius_bounds_vertex:
  assumes "v \<in> set verts"
  shows "\<bar>vx v\<bar> \<le> max (Max ((\<lambda>v. \<bar>vx v\<bar>) ` set verts)) (Max ((\<lambda>v. \<bar>vy v\<bar>) ` set verts)) \<and>
         \<bar>vy v\<bar> \<le> max (Max ((\<lambda>v. \<bar>vx v\<bar>) ` set verts)) (Max ((\<lambda>v. \<bar>vy v\<bar>) ` set verts))"
proof -
  have "\<bar>vx v\<bar> \<le> Max ((\<lambda>v. \<bar>vx v\<bar>) ` set verts)" using assms by (intro Max_ge) auto
  moreover have "\<bar>vy v\<bar> \<le> Max ((\<lambda>v. \<bar>vy v\<bar>) ` set verts)" using assms by (intro Max_ge) auto
  ultimately show ?thesis by (simp add: le_max_iff_disj)
qed

lemma sum_list_abs_bound:
  fixes xs :: "real list"
  shows "\<forall>x \<in> set xs. \<bar>x\<bar> \<le> M \<Longrightarrow> \<bar>sum_list xs\<bar> \<le> M * real (length xs)"
proof (induction xs)
  case Nil
  then show ?case by simp
next
  case (Cons x xs)
  then have "\<bar>x\<bar> \<le> M" "\<bar>sum_list xs\<bar> \<le> M * real (length xs)" by simp_all
  then have "\<bar>x + sum_list xs\<bar> \<le> M + M * real (length xs)"
    by linarith
  then show ?case by (simp add: algebra_simps)
qed

lemma mean_bound:
  assumes "\<forall>x \<in> set xs. \<bar>x\<bar> \<le> M" "0 \<le> M"
  shows "\<bar>mean xs\<bar> \<le> M"
proof (cases "xs = []")
  case True
  then show ?thesis using assms(2) by (simp add: mean_def)
next
  case False
  then have n: "0 < real (length xs)" by simp
  have "\<bar>sum_list xs / real (length xs)\<bar> = \<bar>sum_list xs\<bar> / real (length xs)" by simp
  also have "\<dots> \<le> M"
    using sum_list_abs_bound[OF assms(1)] n by (simp add: pos_divide_le_eq)
  finally show ?thesis using False by (simp add: mean_def)
qed

lemma cell_step_bounded:
  assumes "cell_bounded B cell" "\<bar>vx (snd p) * FT_PER_M\<bar> \<le> B" "\<bar>vy (snd p) * FT_PER_M\<bar> \<le> B"
  shows "cell_bounded B (cell_step jr jl cell p)"
  using assms unfolding cell_bounded_def cell_step_def Let_def
  by (auto split: if_splits)

lemma cell_fold_bounded:
  assumes "cell_bounded B cell"
      and "\<forall>p \<in> set ps. \<bar>vx (snd p) * FT_PER_M\<bar> \<le> B \<and> \<bar>vy (snd p) * FT_PER_M\<bar> \<le> B"
  shows "cell_bounded B (foldl (cell_step jr jl) cell ps)"
  using assms by (induction ps arbitrary: cell) (simp_all add: cell_step_bounded)

lemma cell_get_bounded:
  "cell_bounded B cell \<Longrightarrow> 0 \<le> B \<Longrightarrow> k \<le> 1 \<Longrightarrow> \<bar>cell_get cell (j, k)\<bar> \<le> B"
  by (auto simp add: cell_bounded_def cell_get_def split: option.splits)

lemma scaled_bound: "\<bar>a\<bar> \<le> M \<Longrightarrow> \<bar>a * FT_PER_M\<bar> \<le> M * FT_PER_M"
  using FT_pos by (simp add: abs_mult)

lemma emit_station_bound:
  assumes vs: "\<forall>v \<in> set vs. \<bar>vx v\<bar> \<le> M \<and> \<bar>vy v\<bar> \<le> M" and M: "0 \<le> M"
      and l: "l \<in> set (emit_station b J w li i vs)" and k: "gl_k l \<le> 1"
  shows "\<bar>gl_val l\<bar> \<le> M * FT_PER_M"
proof -
  have B: "0 \<le> M * FT_PER_M" using M FT_pos by simp
  show ?thesis
  proof (cases "vs = []")
    case True
    with l have "gl_val l = 0" using emit_station_empty by metis
    with B show ?thesis by simp
  next
    case ne: False
    show ?thesis
    proof (cases "(w \<and> i = 0) \<or> (w \<and> int i = li)")
      case True
      have "\<bar>mean (map vy vs)\<bar> \<le> M" using vs M by (intro mean_bound) auto
      then have "\<bar>mean (map vy vs) * FT_PER_M\<bar> \<le> M * FT_PER_M" by (rule scaled_bound)
      with True ne l k B show ?thesis
        by (auto simp add: emit_station_def Let_def geo_def)
    next
      case False
      define pos0 where "pos0 = filter (\<lambda>v. vx v \<ge> 0) vs"
      define pos where "pos = (if pos0 \<noteq> [] then pos0 else vs)"
      define cell where "cell = foldl (cell_step [0 ..< J div 2] (rev [J div 2 ..< J])) Map.empty
                                 (enumerate 0 (sort_key (\<lambda>v. - vy v) pos))"
      have sub: "set pos \<subseteq> set vs" by (auto simp add: pos_def pos0_def)
      have mem: "snd p \<in> set vs" if "p \<in> set (enumerate 0 (sort_key (\<lambda>v. - vy v) pos))" for p
      proof -
        from that have "fst p < length (sort_key (\<lambda>v. - vy v) pos)"
          "sort_key (\<lambda>v. - vy v) pos ! fst p = snd p"
          by (auto simp add: in_set_enumerate_eq)
        then have "snd p \<in> set (sort_key (\<lambda>v. - vy v) pos)"
          using nth_mem by metis
        then show ?thesis using sub by auto
      qed
      have "\<forall>p \<in> set (enumerate 0 (sort_key (\<lambda>v. - vy v) pos)).
              \<bar>vx (snd p) * FT_PER_M\<bar> \<le> M * FT_PER_M \<and> \<bar>vy (snd p) * FT_PER_M\<bar> \<le> M * FT_PER_M"
        using mem vs by (auto intro!: scaled_bound)
      then have cb: "cell_bounded (M * FT_PER_M) cell"
        unfolding cell_def by (intro cell_fold_bounded) (simp_all add: cell_bounded_def)
      from False ne l have "gl_val l = cell_get cell (gl_j l, gl_k l)"
        unfolding emit_station_def Let_def cell_def pos_def pos0_def
        by (auto simp add: geo_def)
      with k show ?thesis using cell_get_bounded[OF cb B] by simp
    qed
  qed
qed

lemma generate_bound:
  assumes sub: "\<forall>s \<in> set stations. set s \<subseteq> set verts"
      and l: "l \<in> set (generate_geo_xyz_literal_from_stations stations b ti tj w)"
      and k: "gl_k l \<le> 1"
  shows "\<bar>gl_val l\<bar> + 3 \<le> compute_grid_radius_ft verts"
proof -
  let ?p = "pad_or_truncate_stations stations ti"
  from generate_line_origin[OF l] obtain i where i: "i < length ?p"
    "l \<in> set (emit_station b (nat (max 2 tj)) w (last_non_empty_idx ?p) i (?p ! i))" by blast
  have "?p ! i \<in> insert [] (set stations)"
    using i(1) pad_or_truncate_subset[of stations ti] nth_mem by blast
  then have vsub: "set (?p ! i) \<subseteq> set verts" using sub by auto
  show ?thesis
  proof (cases "verts = []")
    case True
    with vsub have "?p ! i = []" by simp
    with i(2) have "gl_val l = 0" using emit_station_empty by metis
    with True show ?thesis by (simp add: compute_grid_radius_ft_def)
  next
    case False
    let ?M = "max (Max ((\<lambda>v. \<bar>vx v\<bar>) ` set verts)) (Max ((\<lambda>v. \<bar>vy v\<bar>) ` set verts))"
    have b: "\<forall>v \<in> set (?p ! i). \<bar>vx v\<bar> \<le> ?M \<and> \<bar>vy v\<bar> \<le> ?M"
      using vsub grid_radius_bounds_vertex by blast
    obtain v0 where "v0 \<in> set verts" using False by (cases verts) auto
    then have "\<bar>vx v0\<bar> \<le> ?M" using grid_radius_bounds_vertex by blast
    then have M: "0 \<le> ?M" by linarith
    from emit_station_bound[OF b M i(2) k] show ?thesis
      unfolding grid_radius_nonempty[OF False] by simp
  qed
qed

lemma rad_step_max: "rad_step m v = (max \<bar>vx v\<bar> (fst m), max \<bar>vy v\<bar> (snd m))"
  by (simp add: rad_step_def Let_def max_def)

lemma foldl_rad_step:
  "foldl rad_step m vs = (fold max (map (\<lambda>v. \<bar>vx v\<bar>) vs) (fst m), fold max (map (\<lambda>v. \<bar>vy v\<bar>) vs) (snd m))"
  by (induction vs arbitrary: m) (simp_all add: rad_step_max)

lemma foldl_rings_concat:
  "foldl (\<lambda>m ring. foldl rad_step m ring) m rings = foldl rad_step m (concat rings)"
  by (induction rings arbitrary: m) simp_all

lemma part_rad_eq:
  "compute_part_rad_from_rings rings buf =
     max (Max (insert 0 ((\<lambda>v. \<bar>vx v\<bar>) ` set (concat rings))))
         (Max (insert 0 ((\<lambda>v. \<bar>vy v\<bar>) ` set (concat rings)))) + buf"
proof -
  have "fold max (map f vs) 0 = Max (insert 0 (f ` set vs))" for f :: "vertex \<Rightarrow> real" and vs
    using Max.set_eq_fold[of 0 "map f vs"] by simp
  then show ?thesis
    unfolding compute_part_rad_from_rings_def Let_def foldl_rings_concat foldl_rad_step
    by (simp del: set_concat)
qed

lemma part_rad_bounds_vertex:
  assumes "v \<in> set (concat rings) \<or> v = (0, 0, 0)"
  shows "\<bar>vx v\<bar> + buf \<le> compute_part_rad_from_rings rings buf \<and>
         \<bar>vy v\<bar> + buf \<le> compute_part_rad_from_rings rings buf"
proof -
  let ?X = "insert 0 ((\<lambda>v. \<bar>vx v\<bar>) ` set (concat rings))"
  let ?Y = "insert 0 ((\<lambda>v. \<bar>vy v\<bar>) ` set (concat rings))"
  have "\<bar>vx v\<bar> \<in> ?X" "\<bar>vy v\<bar> \<in> ?Y" using assms by (auto simp add: vx_def vy_def)
  then have "\<bar>vx v\<bar> \<le> Max ?X" "\<bar>vy v\<bar> \<le> Max ?Y" by (simp_all del: set_concat)
  then show ?thesis unfolding part_rad_eq by (simp add: le_max_iff_disj del: set_concat)
qed

lemma padded_rings_origin:
  assumes "ring \<in> set (padded_rings rings ts ppr)" "v \<in> set ring"
  shows "v \<in> set (concat rings) \<or> v = (0, 0, 0)"
proof -
  from assms(1) consider
      r where "r \<in> set (take (nat (min (int (length rings)) ts)) rings)" "ring = pad_ring ppr r"
    | "ring = replicate (nat ppr) (0, 0, 0)"
    by (auto simp add: padded_rings_def Let_def)
  then show ?thesis
  proof cases
    case 1
    then have "r \<in> set rings" by (meson in_set_takeD)
    with 1(2) assms(2) show ?thesis
      by (auto simp add: pad_ring_def split: if_splits)
  next
    case 2
    with assms(2) show ?thesis by auto
  qed
qed

lemma two_vertex_grid:
  "generate_geo_xyz_literal_from_stations [ [(- 1, 0, 0), (1, 0, 1)] ] 0 1 2 True
     = [geo 0 0 0 0 0, geo 0 0 0 1 0, geo 0 0 0 2 (82021 / 50000),
        geo 0 0 1 0 0, geo 0 0 1 1 0, geo 0 0 1 2 (82021 / 50000)]"
  by code_simp

lemma two_vertex_radius: "compute_grid_radius_ft [(- 1, 0, 0), (1, 0, 1)] = 157021 / 25000"
  by code_simp

text \<open>
  Claim C8, as stated, fails for \<open>compute_grid_radius_ft\<close>: it scans the vertices of
  the mesh, not the emitted coordinates. The two vertices below form one station,
  emitted as a tip with \<open>x = 0\<close> and \<open>y = 0\<close> in every slot, so the largest emitted
  horizontal value plus the margin is 3; the radius is 6.28084.
\<close>

theorem grid_radius_not_from_emitted:
  "generate_geo_xyz_literal_from_stations [ [(- 1, 0, 0), (1, 0, 1)] ] 0 1 2 True
     = [geo 0 0 0 0 0, geo 0 0 0 1 0, geo 0 0 0 2 (82021 / 50000),
        geo 0 0 1 0 0, geo 0 0 1 1 0, geo 0 0 1 2 (82021 / 50000)] \<and>
   compute_grid_radius_ft [(- 1, 0, 0), (1, 0, 1)] = 157021 / 25000"
  using two_vertex_grid two_vertex_radius by simp

text \<open>
  Claim C8, amended. \<open>compute_grid_radius_ft\<close> is the largest \<open>|x|\<close> or \<open>|y|\<close> over
  the vertices it is given (the centered mesh vertices, in metres), times
  \<open>FT_PER_M\<close>, plus 3; it is 5 for an empty list. For stations made of these vertices
  it is at least the absolute value of every emitted \<open>x\<close> and \<open>y\<close> plus 3.
  \<open>compute_part_rad_from_rings\<close> is the largest \<open>|x|\<close> or \<open>|y|\<close> over all points of
  all rings (0 when there is none) plus the buffer, and is at least \<open>|x|\<close> and \<open>|y|\<close>
  plus the buffer for every point of the padded grid that is emitted.
\<close>

theorem bounding_radius_covers_grid:
  "(verts = [] \<longrightarrow> compute_grid_radius_ft verts = 5) \<and>
   (verts \<noteq> [] \<longrightarrow>
      compute_grid_radius_ft verts
        = max (Max ((\<lambda>v. \<bar>vx v\<bar>) ` set verts)) (Max ((\<lambda>v. \<bar>vy v\<bar>) ` set verts)) * FT_PER_M + 3) \<and>
   ((\<forall>s \<in> set stations. set s \<subseteq> set verts) \<longrightarrow>
      (\<forall>l \<in> set (generate_geo_xyz_literal_from_stations stations b ti tj w).
         gl_k l \<le> 1 \<longrightarrow> \<bar>gl_val l\<bar> + 3 \<le> compute_grid_radius_ft verts)) \<and>
   compute_part_rad_from_rings rings buf
     = max (Max (insert 0 ((\<lambda>v. \<bar>vx v\<bar>) ` set (concat rings))))
           (Max (insert 0 ((\<lambda>v. \<bar>vy v\<bar>) ` set (concat rings)))) + buf \<and>
   (\<forall>ring \<in> set (padded_rings rings ts ppr). \<forall>v \<in> set ring.
      \<bar>vx v\<bar> + buf \<le> compute_part_rad_from_rings rings buf \<and>
      \<bar>vy v\<bar> + buf \<le> compute_part_rad_from_rings rings buf)"
proof (intro conjI impI ballI)
  assume "verts = []"
  then show "compute_grid_radius_ft verts = 5" by (simp add: compute_grid_radius_ft_def)
next
  assume "verts \<noteq> []"
  then show "compute_grid_radius_ft verts
        = max (Max ((\<lambda>v. \<bar>vx v\<bar>) ` set verts)) (Max ((\<lambda>v. \<bar>vy v\<bar>) ` set verts)) * FT_PER_M + 3"
    by (rule grid_radius_nonempty)
next
  fix l
  assume "\<forall>s \<in> set stations. set s \<subseteq> set verts"
    "l \<in> set (generate_geo_xyz_literal_from_stations stations b ti tj w)" "gl_k l \<le> 1"
  then show "\<bar>gl_val l\<bar> + 3 \<le> compute_grid_radius_ft verts" by (rule generate_bound)
next
  show "compute_part_rad_from_rings rings buf
     = max (Max (insert 0 ((\<lambda>v. \<bar>vx v\<bar>) ` set (concat rings))))
           (Max (insert 0 ((\<lambda>v. \<bar>vy v\<bar>) ` set (concat rings)))) + buf"
    by (rule part_rad_eq)
next
  fix ring v
  assume "ring \<in> set (padded_rings rings ts ppr)" "v \<in> set ring"
  then have o: "v \<in> set (concat rings) \<or> v = (0, 0, 0)" by (rule padded_rings_origin)
  from part_rad_bounds_vertex[OF o]
  show "\<bar>vx v\<bar> + buf \<le> compute_part_rad_from_rings rings buf"
       "\<bar>vy v\<bar> + buf \<le> compute_part_rad_from_rings rings buf" by simp_all
qed

theorem bounding_radius_covers_grid_witness:
  "compute_grid_radius_ft [] = 5 \<and>
   compute_grid_radius_ft [(- 1, 0, 0), (1, 0, 1)] = 1 * FT_PER_M + 3 \<and>
   \<bar>gl_val (geo 0 0 0 1 0)\<bar> + 3 \<le> compute_grid_radius_ft [(- 1, 0, 0), (1, 0, 1)] \<and>
   compute_part_rad_from_rings [ [(1, 2, 3)] ] 1 = 3 \<and>
   \<bar>vx (1, 2, 3)\<bar> + 1 \<le> compute_part_rad_from_rings [ [(1, 2, 3)] ] 1"
proof -
  let ?V = "[(- 1, 0, 0), (1, 0, 1)] :: vertex list"
  have h1: "\<forall>s \<in> set [?V]. set s \<subseteq> set ?V" by simp
  have h2: "geo 0 0 0 1 0 \<in> set (generate_geo_xyz_literal_from_stations [?V] 0 1 2 True)"
    unfolding two_vertex_grid by simp
  have h3: "gl_k (geo 0 0 0 1 0) \<le> 1" by (simp add: geo_def)
  have h4: "[(1, 2, 3), (0, 0, 0)] \<in> set (padded_rings [ [(1, 2, 3)] ] 2 2)"
    by (simp add: padded_rings_def pad_ring_def Let_def)
  have m: "max (Max ((\<lambda>v. \<bar>vx v\<bar>) ` set ?V)) (Max ((\<lambda>v. \<bar>vy v\<bar>) ` set ?V)) = 1"
    by (simp add: vx_def vy_def)
  have m2: "max (Max (insert 0 ((\<lambda>v. \<bar>vx v\<bar>) ` set (concat [ [(1, 2, 3)] ]))))
                (Max (insert 0 ((\<lambda>v. \<bar>vy v\<bar>) ` set (concat [ [(1, 2, 3)] ])))) = 2"
    by (simp add: vx_def vy_def)
  from bounding_radius_covers_grid[of "[]" "[]" 0 0 0 True "[]" 0 0 0]
  have a: "compute_grid_radius_ft [] = 5" by simp
  from bounding_radius_covers_grid[of ?V "[?V]" 0 1 2 True "[ [(1, 2, 3)] ]" 1 2 2] h1 h2 h3 h4
  have b: "compute_grid_radius_ft ?V = 1 * FT_PER_M + 3"
          "\<bar>gl_val (geo 0 0 0 1 0)\<bar> + 3 \<le> compute_grid_radius_ft ?V"
          "compute_part_rad_from_rings [ [(1, 2, 3)] ] 1 = 3"
          "\<bar>vx (1, 2, 3)\<bar> + 1 \<le> compute_part_rad_from_rings [ [(1, 2, 3)] ] 1"
    unfolding m m2 by auto
  from a b show ?thesis by simp
qed


section \<open>Properties of the ring canonicalizer\<close>










lemma mid_ring_ok:
  assumes "5 \<le> length (filter (\<lambda>v. vx v \<ge> - eps_split) station_verts_m)"
      and "length (filter (\<lambda>v. vx v \<ge> - eps_split) station_verts_m) \<le> 9"
  shows "mid_ring station_verts_m =
           Inr (mirror_ring (left_ring (half_order (map to_ft
                  (filter (\<lambda>v. vx v \<ge> - eps_split) station_verts_m)))),
                length (filter (\<lambda>v. vx v \<ge> - eps_split) station_verts_m))"
  using assms by (simp add: mid_ring_def Let_def)













section \<open>Properties of the topology builder and of the run\<close>

lemma wing_adj: "build_vertex_adjacency sort (length wing_verts) wing_faces = Inr [ [1, 2], [0, 3], [0, 3], [1, 2] ]"
  by code_simp

lemma fuse_adj: "build_vertex_adjacency sort (length fuse_verts) fuse_faces =
  Inr [ [1, 2, 3, 4, 5, 6, 7, 8], [0, 2, 8, 9], [0, 1, 3, 9], [0, 2, 4, 9], [0, 3, 5, 9],
       [0, 4, 6, 9], [0, 5, 7, 9], [0, 6, 8, 9], [0, 1, 7, 9], [1, 2, 3, 4, 5, 6, 7, 8] ]"
  by code_simp

lemma wing_rec: "recenter wing_verts = wing_verts"
  by (simp add: recenter_def wing_verts_def vx_def vy_def vz_def Let_def)

lemma fuse_rec: "recenter fuse_verts = fuse_verts"
  by (simp add: recenter_def fuse_verts_def vx_def vy_def vz_def Let_def)

lemma wing_layers: "compute_topological_layers wing_verts [ [1, 2], [0, 3], [0, 3], [1, 2] ]
   = Inr ([(0, 0), (1, 1), (2, 1), (3, 2)], 0, 3)"
  by code_simp

lemma wing_groups: "build_station_vertex_groups wing_verts [ [1, 2], [0, 3], [0, 3], [1, 2] ] 20 = Inl ValueError"
  by code_simp

lemma fuse_groups: "build_station_vertex_groups fuse_verts
     [ [1, 2, 3, 4, 5, 6, 7, 8], [0, 2, 8, 9], [0, 1, 3, 9], [0, 2, 4, 9], [0, 3, 5, 9],
       [0, 4, 6, 9], [0, 5, 7, 9], [0, 6, 8, 9], [0, 1, 7, 9], [1, 2, 3, 4, 5, 6, 7, 8] ] 20
   = Inr [ [0], [1, 2, 3, 4, 5, 6, 7, 8], [9] ]"
  by code_simp

lemma mid_stations_bad:
  assumes "d \<in> set ds" "d \<noteq> 0" "d \<noteq> tail_d" "bucket dmap d \<noteq> []"
          "length (bucket dmap d) < 8 \<or> 16 < length (bucket dmap d)"
  shows "mid_stations dmap tail_d ds stations = Inl ValueError"
  using assms
proof (induction ds arbitrary: stations)
  case Nil
  then show ?case by simp
next
  case (Cons a ds)
  show ?case
  proof (cases "a = d")
    case True
    with Cons.prems show ?thesis by (auto simp add: Let_def)
  next
    case False
    then have "d \<in> set ds" using Cons.prems(1) by simp
    from Cons.IH[OF this Cons.prems(2-5)] show ?thesis by (simp add: Let_def)
  qed
qed

lemma bucket_nonempty: "d \<in> snd ` set dmap \<Longrightarrow> bucket dmap d \<noteq> []"
  by (auto simp add: bucket_def filter_empty_conv)

lemma d_values_set: "set (d_values dmap) = snd ` set dmap"
  by (simp add: d_values_def)

lemma layers_tail:
  assumes "compute_topological_layers verts_m neighbors = Inr (dmap, nose, tail)"
  shows "tail = first_max_by (\<lambda>i. vz (verts_m ! i)) [0 ..< length verts_m]"
  using assms by (auto simp add: compute_topological_layers_def Let_def split: if_splits sum.splits)

lemma stationing_raises:
  assumes l: "compute_topological_layers verts_m neighbors = Inr (dmap, nose, tail)"
      and t: "map_of dmap tail = Some tail_d"
      and m: "malformed dmap tail_d"
  shows "\<exists>e. build_station_vertex_groups verts_m neighbors max_stations = Inl e"
proof -
  have tc: "first_max_by (\<lambda>i. vz (verts_m ! i)) [0 ..< length verts_m] = tail"
    using layers_tail[OF l] by simp
  show ?thesis
  proof (cases "fold min (d_values dmap) (hd (d_values dmap)) \<noteq> 0")
    case True
    then show ?thesis by (simp add: build_station_vertex_groups_def l)
  next
    case z: False
    show ?thesis
    proof (cases "mid_stations dmap tail_d (d_values dmap) [ [nose] ]")
      case (Inl e)
      with z show ?thesis by (simp add: build_station_vertex_groups_def l tc t)
    next
      case (Inr stations)
      have "length (bucket dmap tail_d) \<noteq> 1"
      proof (rule ccontr)
        assume "\<not> length (bucket dmap tail_d) \<noteq> 1"
        with m obtain d where d: "d \<in> snd ` set dmap" "d \<noteq> 0" "d \<noteq> tail_d"
          "length (bucket dmap d) < 8 \<or> 16 < length (bucket dmap d)"
          by (auto simp add: malformed_def)
        have "mid_stations dmap tail_d (d_values dmap) [ [nose] ] = Inl ValueError"
          using d by (intro mid_stations_bad[of d]) (simp_all add: d_values_set bucket_nonempty)
        with Inr show False by simp
      qed
      with z Inr show ?thesis by (simp add: build_station_vertex_groups_def l tc t)
    qed
  qed
qed

lemma rings_raise:
  assumes "verts_m \<noteq> []"
      and "build_vertex_adjacency set_list (length verts_m) faces = Inr neighbors"
      and "build_station_vertex_groups (recenter verts_m) neighbors 20 = Inl e"
  shows "build_pm_rings_for_mesh set_list verts_m faces = Inl e"
  using assms by (simp add: build_pm_rings_for_mesh_def)

lemma bodies_loop_raises:
  assumes "item \<in> set items" "groups (snd item) = Some (verts_m, faces)" "faces \<noteq> []"
          "10 \<le> length verts_m" "build_pm_rings_for_mesh set_list verts_m faces = Inl e"
  shows "\<exists>e'. bodies_loop set_list groups items bodies = Inl e'"
  using assms(1)
proof (induction items arbitrary: bodies)
  case Nil
  then show ?case by simp
next
  case (Cons a items)
  show ?case
  proof (cases "a = item")
    case True
    then show ?thesis using assms(2-5) by simp
  next
    case False
    then have "item \<in> set items" using Cons.prems by simp
    from Cons.IH[OF this] show ?thesis
      by (auto split: option.splits sum.splits prod.splits)
  qed
qed

lemma in_body_order:
  assumes "map_of groups name = Some g"
  shows "name \<in> set (body_order groups)"
proof -
  have "name \<in> set (map fst groups)"
    using assms by (metis map_of_SomeD image_eqI fst_conv set_map)
  then show ?thesis by (auto simp add: body_order_def Let_def)
qed

lemma bodies_raise:
  assumes "map_of groups name = Some (verts_m, faces)" "faces \<noteq> []" "10 \<le> length verts_m"
          "build_pm_rings_for_mesh set_list verts_m faces = Inl e"
  shows "\<exists>e'. build_bodies_from_obj set_list groups = Inl e'"
proof -
  from in_body_order[OF assms(1)] obtain i where
    i: "i < length (body_order groups)" "body_order groups ! i = name"
    by (auto simp add: in_set_conv_nth)
  then have "(i, name) \<in> set (enumerate 0 (body_order groups))"
    by (simp add: in_set_enumerate_eq)
  from bodies_loop_raises[OF this, of "map_of groups" verts_m faces set_list e "[]"] assms
  show ?thesis by (simp add: build_bodies_from_obj_def)
qed

lemma generate_nothing:
  "build_bodies_from_obj set_list groups = Inl e \<Longrightarrow>
   generate_bodies_and_rewrite_acf set_list tmpl groups acf_lines mesh_rows = None"
  by (simp add: generate_bodies_and_rewrite_acf_def)

lemma fuse_mid:
  "\<exists>ring. mid_ring [(0, 1, 1), (1, 1, 1), (1, 0, 1), (1, - 1, 1), (0, - 1, 1), (- 1, - 1, 1),
                       (- 1, 0, 1), (- 1, 1, 1)] = Inr (ring, 5)"
proof -
  have f: "filter (\<lambda>v. vx v \<ge> - eps_split)
              [(0, 1, 1), (1, 1, 1), (1, 0, 1), (1, - 1, 1), (0, - 1, 1), (- 1, - 1, 1),
               (- 1, 0, 1), (- 1, 1, 1)]
        = [(0, 1, 1), (1, 1, 1), (1, 0, 1), (1, - 1, 1), (0, - 1, 1)]"
    by (simp add: vx_def eps_split_def)
  show ?thesis
    using mid_ring_ok[of "[(0, 1, 1), (1, 1, 1), (1, 0, 1), (1, - 1, 1), (0, - 1, 1),
                           (- 1, - 1, 1), (- 1, 0, 1), (- 1, 1, 1)]"]
    unfolding f by simp
qed

lemma fuse_rings:
  "\<exists>rings. rings_loop fuse_verts [ [0], [1, 2, 3, 4, 5, 6, 7, 8], [9] ] [] 0 = Inr (rings, 5) \<and> rings \<noteq> []"
proof -
  from fuse_mid obtain ring where
    r: "mid_ring [(0, 1, 1), (1, 1, 1), (1, 0, 1), (1, - 1, 1), (0, - 1, 1), (- 1, - 1, 1),
                  (- 1, 0, 1), (- 1, 1, 1)] = Inr (ring, 5)" by blast
  show ?thesis
    by (simp add: fuse_verts_def r)
qed

lemma fuse_pm_rings:
  "\<exists>px rings. build_pm_rings_for_mesh sort fuse_verts fuse_faces = Inr (px, rings, 5) \<and> rings \<noteq> []"
proof -
  from fuse_rings obtain rings where
    r: "rings_loop fuse_verts [ [0], [1, 2, 3, 4, 5, 6, 7, 8], [9] ] [] 0 = Inr (rings, 5)" "rings \<noteq> []"
    by blast
  have ne: "(fuse_verts = []) = False" by (simp add: fuse_verts_def)
  have "build_pm_rings_for_mesh sort fuse_verts fuse_faces = Inr (part_x_of fuse_verts, rings, 5)"
    by (simp only: build_pm_rings_for_mesh_def ne if_False fuse_adj fuse_rec fuse_groups r
                   sum.case prod.case)
  with r(2) show ?thesis by blast
qed

lemma wing_pm_rings: "build_pm_rings_for_mesh sort wing_verts wing_faces = Inl ValueError"
proof -
  have ne: "(wing_verts = []) = False" by (simp add: wing_verts_def)
  show ?thesis
    by (simp only: build_pm_rings_for_mesh_def ne if_False wing_adj wing_rec wing_groups sum.case)
qed

lemma sample_bodies:
  "\<exists>b. build_bodies_from_obj sort [(''wing'', wing_verts, wing_faces), (''fuse'', fuse_verts, fuse_faces)]
          = Inr [b] \<and> b_group_name b = ''fuse''"
proof -
  from fuse_pm_rings obtain px rings where
    r: "build_pm_rings_for_mesh sort fuse_verts fuse_faces = Inr (px, rings, 5)" "rings \<noteq> []"
    by blast
  have o: "body_order [(''wing'', wing_verts, wing_faces), (''fuse'', fuse_verts, fuse_faces)]
             = [''wing'', ''fuse'']"
    by (simp add: body_order_def priority_names_def Let_def)
  have wl: "length wing_verts = 4" "wing_faces \<noteq> []" by (simp_all add: wing_verts_def wing_faces_def)
  have fl: "length fuse_verts = 10" "fuse_faces \<noteq> []" by (simp_all add: fuse_verts_def fuse_faces_def)
  have e: "enumerate 0 [''wing'', ''fuse''] = [(0, ''wing''), (1, ''fuse'')]" by simp
  show ?thesis
    unfolding build_bodies_from_obj_def o e
    by (simp add: wl fl r)
qed

lemma sample_rewrite:
  "rewrite_acf_bodies [''PROPERTIES_BEGIN'', ''P _body/0/_part_x 0.000000000'', ''PROPERTIES_END''] []
     = Inr [''PROPERTIES_BEGIN'', ''PROPERTIES_END'']"
  by code_simp

lemma sample_run:
  "generate_bodies_and_rewrite_acf sort block_from_empty_template
     [(''wing'', wing_verts, wing_faces), (''fuse'', fuse_verts, fuse_faces)]
     [''PROPERTIES_BEGIN'', ''P _body/0/_part_x 0.000000000'', ''PROPERTIES_END'']
     [\<lparr>r_mesh_name = ''fuse'', r_body_index = 0, r_pm_name = ''Fuselage''\<rparr>,
      \<lparr>r_mesh_name = ''wing'', r_body_index = 1, r_pm_name = ''Wing''\<rparr>]
   = Some [''PROPERTIES_BEGIN'', ''PROPERTIES_END'']"
proof -
  from sample_bodies obtain b where
    b: "build_bodies_from_obj sort [(''wing'', wing_verts, wing_faces), (''fuse'', fuse_verts, fuse_faces)]
          = Inr [b]" "b_group_name b = ''fuse''" by blast
  show ?thesis
    unfolding generate_bodies_and_rewrite_acf_def b(1)
    by (simp add: b(2) Let_def List.map_filter_simps sample_rewrite block_from_empty_template_def)
qed

text \<open>
  Claim C6, as stated, fails for a small group. The four-vertex group \<open>wing\<close> has a
  first layer of two vertices, and stationing raises on it; but a group with fewer
  than 10 vertices is skipped before stationing, so the run goes on and writes the
  output for the body \<open>fuse\<close>. (Sets are iterated in ascending order here, and the
  template is empty.)
\<close>

theorem small_malformed_group_is_skipped:
  "compute_topological_layers (recenter wing_verts) [ [1, 2], [0, 3], [0, 3], [1, 2] ]
     = Inr ([(0, 0), (1, 1), (2, 1), (3, 2)], 0, 3) \<and>
   build_station_vertex_groups (recenter wing_verts) [ [1, 2], [0, 3], [0, 3], [1, 2] ] 20
     = Inl ValueError \<and>
   generate_bodies_and_rewrite_acf sort block_from_empty_template
     [(''wing'', wing_verts, wing_faces), (''fuse'', fuse_verts, fuse_faces)]
     [''PROPERTIES_BEGIN'', ''P _body/0/_part_x 0.000000000'', ''PROPERTIES_END'']
     [\<lparr>r_mesh_name = ''fuse'', r_body_index = 0, r_pm_name = ''Fuselage''\<rparr>,
      \<lparr>r_mesh_name = ''wing'', r_body_index = 1, r_pm_name = ''Wing''\<rparr>]
   = Some [''PROPERTIES_BEGIN'', ''PROPERTIES_END'']"
  using wing_layers wing_groups sample_run unfolding wing_rec by simp

text \<open>
  Claim C6, amended. For every mesh whose layer of the tail vertex has a size other
  than 1, or one of whose layers other than those of nose and tail has fewer than 8 or
  more than 16 vertices, \<open>build_station_vertex_groups\<close> raises. When such a mesh is a
  group of the OBJ file with at least one face and at least 10 vertices, the exception
  leaves \<open>build_pm_rings_for_mesh\<close> and \<open>build_bodies_from_obj\<close>, and the run ends
  without writing an output file. (Groups with no face or fewer than 10 vertices are
  skipped before stationing and do not end the run.)
\<close>

theorem malformed_topology_aborts:
  "(compute_topological_layers verts_m neighbors = Inr (dmap, nose, tail) \<and>
    map_of dmap tail = Some tail_d \<and> malformed dmap tail_d \<longrightarrow>
      (\<exists>e. build_station_vertex_groups verts_m neighbors max_stations = Inl e)) \<and>
   (map_of groups name = Some (verts, faces) \<and> faces \<noteq> [] \<and> 10 \<le> length verts \<and>
    build_vertex_adjacency set_list (length verts) faces = Inr nbrs \<and>
    (\<exists>e. build_station_vertex_groups (recenter verts) nbrs 20 = Inl e) \<longrightarrow>
      (\<exists>e. build_pm_rings_for_mesh set_list verts faces = Inl e) \<and>
      (\<exists>e. build_bodies_from_obj set_list groups = Inl e) \<and>
      generate_bodies_and_rewrite_acf set_list tmpl groups acf_lines mesh_rows = None)"
proof (intro conjI impI)
  assume "compute_topological_layers verts_m neighbors = Inr (dmap, nose, tail) \<and>
    map_of dmap tail = Some tail_d \<and> malformed dmap tail_d"
  then show "\<exists>e. build_station_vertex_groups verts_m neighbors max_stations = Inl e"
    using stationing_raises by blast
next
  assume a: "map_of groups name = Some (verts, faces) \<and> faces \<noteq> [] \<and> 10 \<le> length verts \<and>
    build_vertex_adjacency set_list (length verts) faces = Inr nbrs \<and>
    (\<exists>e. build_station_vertex_groups (recenter verts) nbrs 20 = Inl e)"
  then obtain e where e: "build_station_vertex_groups (recenter verts) nbrs 20 = Inl e" by blast
  from a have ne: "verts \<noteq> []" by auto
  from a have r: "build_pm_rings_for_mesh set_list verts faces = Inl e"
    using rings_raise[OF ne _ e] by blast
  from a obtain e' where b: "build_bodies_from_obj set_list groups = Inl e'"
    using bodies_raise[OF _ _ _ r] by blast
  show "\<exists>e. build_pm_rings_for_mesh set_list verts faces = Inl e" using r by blast
  show "\<exists>e. build_bodies_from_obj set_list groups = Inl e" using b by blast
  show "generate_bodies_and_rewrite_acf set_list tmpl groups acf_lines mesh_rows = None"
    using generate_nothing[OF b] .
qed

theorem malformed_topology_aborts_witness:
  "(\<exists>e. build_station_vertex_groups fuse_verts
          [ [1, 2, 3, 4, 5], [0, 2, 8, 9], [0, 1, 3, 9], [0, 2, 4, 9], [0, 3, 5, 9], [0, 4, 6, 9], [5, 7, 9], [6, 8, 9], [1, 7, 9], [1, 2, 3, 4, 5, 6, 7, 8] ] 20 = Inl e) \<and>
   generate_bodies_and_rewrite_acf sort block_from_empty_template
     [(''fuse'', fuse_verts, open_fuse_faces)]
     [''PROPERTIES_BEGIN'', ''P _body/0/_part_x 0.000000000'', ''PROPERTIES_END'']
     [\<lparr>r_mesh_name = ''fuse'', r_body_index = 0, r_pm_name = ''Fuselage''\<rparr>] = None"
proof -
  let ?N = "[ [1, 2, 3, 4, 5], [0, 2, 8, 9], [0, 1, 3, 9], [0, 2, 4, 9], [0, 3, 5, 9], [0, 4, 6, 9], [5, 7, 9], [6, 8, 9], [1, 7, 9], [1, 2, 3, 4, 5, 6, 7, 8] ]"
  let ?D = "[(0, 0), (1, 1), (2, 1), (3, 1), (4, 1), (5, 1), (8, 2), (9, 2), (6, 2), (7, 3)] :: (nat \<times> nat) list"
  have adj: "build_vertex_adjacency sort (length fuse_verts) open_fuse_faces = Inr ?N"
    by code_simp
  have lay: "compute_topological_layers fuse_verts ?N = Inr (?D, 0, 9)"
    by code_simp
  have t: "map_of ?D 9 = Some 2" by simp
  have m: "malformed ?D 2" by code_simp
  have g: "map_of [(''fuse'', fuse_verts, open_fuse_faces)] ''fuse'' = Some (fuse_verts, open_fuse_faces)"
    by simp
  have f: "open_fuse_faces \<noteq> []" "10 \<le> length fuse_verts"
    by (simp_all add: open_fuse_faces_def fuse_verts_def)
  have 1: "\<exists>e. build_station_vertex_groups fuse_verts ?N 20 = Inl e"
    using malformed_topology_aborts[of fuse_verts ?N ?D 0 9 2 20] lay t m by blast
  have 2: "generate_bodies_and_rewrite_acf sort block_from_empty_template
     [(''fuse'', fuse_verts, open_fuse_faces)]
     [''PROPERTIES_BEGIN'', ''P _body/0/_part_x 0.000000000'', ''PROPERTIES_END'']
     [\<lparr>r_mesh_name = ''fuse'', r_body_index = 0, r_pm_name = ''Fuselage''\<rparr>] = None"
    using malformed_topology_aborts[of _ _ _ _ _ _ _ "[(''fuse'', fuse_verts, open_fuse_faces)]"
            "''fuse''" fuse_verts open_fuse_faces sort ?N] g f adj 1
    unfolding fuse_rec by blast
  from 1 2 show ?thesis by blast
qed

end
